theory Spec2Isabelle
  imports Main
begin

section \<open>JavaScript values used by the router\<close>

text \<open>
  Strings are byte strings. \<open>toUpperCase\<close> maps the ASCII letters, which is what
  \<open>String.prototype.toUpperCase\<close> does on HTTP method names.
\<close>

definition upper_char :: "char \<Rightarrow> char" where
  "upper_char c =
     (case map_of (zip ''abcdefghijklmnopqrstuvwxyz'' ''ABCDEFGHIJKLMNOPQRSTUVWXYZ'') c of
        Some u \<Rightarrow> u
      | None \<Rightarrow> c)"

definition toUpperCase :: "string \<Rightarrow> string" where
  "toUpperCase s = map upper_char s"

text \<open>\<open>Array.prototype.indexOf\<close>: the first position of the element, or \<open>-1\<close>.\<close>

fun indexOf :: "'a list \<Rightarrow> 'a \<Rightarrow> int" where
  "indexOf [] x = - 1"
| "indexOf (y # ys) x =
     (if y = x then 0 else (let r = indexOf ys x in if r < 0 then - 1 else r + 1))"

text \<open>\<open>Array.prototype.join\<close> on an array of strings.\<close>

fun join :: "string \<Rightarrow> string list \<Rightarrow> string" where
  "join sep [] = []"
| "join sep [x] = x"
| "join sep (x # y # ys) = x @ sep @ join sep (y # ys)"

subsection \<open>Plain objects\<close>

text \<open>
  A plain object \<open>{}\<close> with string keys is the list of its own properties in insertion
  order. Three facts of the language are kept, since the router relies on plain objects
  as sets and maps:
  \<^item> assigning a primitive to the key \<open>__proto__\<close> creates no own property;
  \<^item> \<open>Object.keys\<close> lists the keys that are canonical array indices first, in
    ascending numeric order, and then the other keys in insertion order;
  \<^item> reading a key that is not an own property finds the members inherited from
    \<open>Object.prototype\<close>.
\<close>

type_synonym 'v jsobj = "(string \<times> 'v) list"

definition obj_set :: "string \<Rightarrow> 'v \<Rightarrow> 'v jsobj \<Rightarrow> 'v jsobj" where
  "obj_set k v ob =
     (if k = ''__proto__'' then ob
      else if k \<in> set (map fst ob) then map (\<lambda>kv. if fst kv = k then (k, v) else kv) ob
      else ob @ [(k, v)])"

definition is_digit :: "char \<Rightarrow> bool" where
  "is_digit c = (c \<in> set ''0123456789'')"

definition decimal_val :: "string \<Rightarrow> int" where
  "decimal_val s = foldl (\<lambda>n c. 10 * n + indexOf ''0123456789'' c) 0 s"

definition is_array_index :: "string \<Rightarrow> bool" where
  "is_array_index s =
     (s \<noteq> [] \<and> list_all is_digit s \<and> (s = ''0'' \<or> hd s \<noteq> CHR ''0'')
      \<and> decimal_val s < 4294967295)"

definition obj_keys :: "'v jsobj \<Rightarrow> string list" where
  "obj_keys ob =
     sort_key decimal_val (filter is_array_index (map fst ob))
     @ filter (\<lambda>k. \<not> is_array_index k) (map fst ob)"

definition object_prototype_names :: "string list" where
  "object_prototype_names =
     [''constructor'', ''toString'', ''toLocaleString'', ''valueOf'', ''hasOwnProperty'',
      ''isPrototypeOf'', ''propertyIsEnumerable'', ''__proto__'', ''__defineGetter__'',
      ''__defineSetter__'', ''__lookupGetter__'', ''__lookupSetter__'']"

text \<open>
  Truthiness of \<open>ob[k]\<close> for an object whose own values are strings: an own value is
  truthy unless it is the empty string, an inherited member is always truthy.
\<close>

definition obj_truthy :: "string jsobj \<Rightarrow> string \<Rightarrow> bool" where
  "obj_truthy ob k =
     (case map_of ob k of
        Some v \<Rightarrow> v \<noteq> []
      | None \<Rightarrow> k \<in> set object_prototype_names)"

subsection \<open>decodeURIComponent\<close>

text \<open>
  The built-in \<open>decodeURIComponent\<close> on byte strings: every \<open>%XX\<close> becomes the byte
  \<open>XX\<close>; a \<open>%\<close> that is not followed by two hexadecimal digits, or escaped bytes
  that are not well-formed UTF-8, raise \<open>URIError\<close> (the value \<open>None\<close>).
\<close>

definition hex_val :: "char \<Rightarrow> nat option" where
  "hex_val c =
     (let i = indexOf ''0123456789abcdef'' c; j = indexOf ''0123456789ABCDEF'' c
      in if 0 \<le> i then Some (nat i) else if 0 \<le> j then Some (nat j) else None)"

fun percent_bytes :: "string \<Rightarrow> (bool \<times> nat) list option" where
  "percent_bytes [] = Some []"
| "percent_bytes (c # h1 # h2 # cs) =
     (if c = CHR ''%'' then
        (case (hex_val h1, hex_val h2) of
           (Some a, Some b) \<Rightarrow> map_option ((#) (True, 16 * a + b)) (percent_bytes cs)
         | _ \<Rightarrow> None)
      else map_option ((#) (False, of_char c)) (percent_bytes (h1 # h2 # cs)))"
| "percent_bytes (c # cs) =
     (if c = CHR ''%'' then None
      else map_option ((#) (False, of_char c)) (percent_bytes cs))"

text \<open>
  The scanner's state: outside a multi-byte sequence, or inside one with \<open>n\<close> more
  continuation bytes to come, the next of which lies in \<open>lo..hi\<close>.
\<close>

datatype utf8_state = Idle | Need nat nat nat

fun utf8_lead :: "nat \<Rightarrow> utf8_state option" where
  "utf8_lead b =
     (if b < 128 then Some Idle
      else if 194 \<le> b \<and> b \<le> 223 then Some (Need 1 128 191)
      else if b = 224 then Some (Need 2 160 191)
      else if 225 \<le> b \<and> b \<le> 236 then Some (Need 2 128 191)
      else if b = 237 then Some (Need 2 128 159)
      else if 238 \<le> b \<and> b \<le> 239 then Some (Need 2 128 191)
      else if b = 240 then Some (Need 3 144 191)
      else if 241 \<le> b \<and> b \<le> 243 then Some (Need 3 128 191)
      else if b = 244 then Some (Need 3 128 143)
      else None)"

fun utf8_scan :: "utf8_state \<Rightarrow> (bool \<times> nat) list \<Rightarrow> bool" where
  "utf8_scan st [] = (st = Idle)"
| "utf8_scan Idle ((esc, b) # bs) =
     (if esc then (case utf8_lead b of Some st \<Rightarrow> utf8_scan st bs | None \<Rightarrow> False)
      else utf8_scan Idle bs)"
| "utf8_scan (Need n lo hi) ((esc, b) # bs) =
     (esc \<and> lo \<le> b \<and> b \<le> hi
      \<and> utf8_scan (if n \<le> 1 then Idle else Need (n - 1) 128 191) bs)"

definition decodeURIComponent :: "string \<Rightarrow> string option" where
  "decodeURIComponent t =
     (case percent_bytes t of
        None \<Rightarrow> None
      | Some bs \<Rightarrow> if utf8_scan Idle bs then Some (map (char_of \<circ> snd) bs) else None)"


section \<open>Data model\<close>

text \<open>
  What the code throws: a \<open>TypeError\<close> of the runtime, the \<open>Error\<close> of the layer
  constructor for a middleware that is not a function, an \<open>HttpError\<close> with its status,
  and whatever a function of the user throws.
\<close>

datatype error =
    TypeError string
  | ConfigError string
  | HttpError nat
  | Thrown string

text \<open>
  A compiled regular expression is the function \<open>RegExp.prototype.exec\<close> computes:
  \<open>None\<close> when the input does not match, otherwise the capture groups \<open>1..n\<close>, each
  \<open>None\<close> (\<open>undefined\<close>) or the captured text.
\<close>

type_synonym captures = "string option list"
type_synonym regexp = "string \<Rightarrow> captures option"

record layer_opts =
  o_end :: bool
  o_name :: "string option"
  o_sensitive :: bool
  o_strict :: bool
  o_prefix :: string
  o_ignoreCaptures :: bool

text \<open>
  \<open>pathToRegexp(path, keys, options)\<close> of the library path-to-regexp is a parameter of
  the model: it returns the names of the keys it pushes and the compiled expression.
  Patterns are taken to be accepted by the library.
\<close>

type_synonym pathToRegexp = "string \<Rightarrow> layer_opts \<Rightarrow> string list \<times> regexp"

record router_opts =
  ro_prefix :: "string option"
  ro_sensitive :: bool
  ro_strict :: bool
  ro_methods :: "string list option"
  ro_routerPath :: "string option"

text \<open>
  Objects that the code shares and mutates live in a store and are named by their
  address: the \<open>Layer\<close> objects, the middleware-stack arrays and the \<open>params\<close> objects
  of the routers. A router holds the addresses of its layers in registration order.
\<close>

record router =
  r_opts :: router_opts
  r_methods :: "string list"
  r_params :: nat
  r_stack :: "nat list"

text \<open>Values that are not functions, as far as the router looks at them.\<close>

datatype jsval =
    JUndefined
  | JString string
  | JNumber int
  | JArray "jsval list"
  | JObject "(string \<times> jsval) list"

fun typeof_val :: "jsval \<Rightarrow> string" where
  "typeof_val JUndefined = ''undefined''"
| "typeof_val (JString s) = ''string''"
| "typeof_val (JNumber n) = ''number''"
| "typeof_val v = ''object''"

text \<open>
  A middleware value: a user function (numbered, with the value of its \<open>param\<close>
  property), the wrapper \<open>Layer.prototype.param\<close> builds around a validator, the
  dispatcher \<open>routes()\<close> returns (its \<open>router\<close> property is the router), or a value
  that is not a function.
\<close>

datatype middleware =
    Fn nat "string option"
  | ParamFn string nat
  | Dispatch router
  | NotFn jsval

record layer =
  l_opts :: layer_opts
  l_name :: "string option"
  l_methods :: "string list"
  l_paramNames :: "string list"
  l_stack :: nat
  l_path :: string
  l_regexp :: regexp

record store =
  layers :: "layer list"
  arrays :: "middleware list list"
  objects :: "nat jsobj list"

definition empty_store :: store where
  "empty_store = \<lparr>layers = [], arrays = [], objects = []\<rparr>"

definition truthy_str :: "string option \<Rightarrow> bool" where
  "truthy_str v = (case v of Some s \<Rightarrow> s \<noteq> [] | None \<Rightarrow> False)"

fun typeof_mw :: "middleware \<Rightarrow> string" where
  "typeof_mw (NotFn v) = typeof_val v"
| "typeof_mw m = ''function''"

fun mw_param :: "middleware \<Rightarrow> string option" where
  "mw_param (Fn i p) = p"
| "mw_param (ParamFn p f) = Some p"
| "mw_param m = None"

section \<open>Layer\<close>

text \<open>
  The constructor's loop over \<open>methods\<close>: push the upper-cased name; when the element
  just pushed is \<open>GET\<close>, unshift \<open>HEAD\<close>.
\<close>

definition layer_methods :: "string list \<Rightarrow> string list" where
  "layer_methods ms =
     foldl (\<lambda>acc m.
        let acc' = acc @ [toUpperCase m]; l = length acc'
        in if acc' ! (l - 1) = ''GET'' then ''HEAD'' # acc' else acc') [] ms"

text \<open>
  The \<open>middleware\<close> argument is an array, which becomes the layer's stack as it is (the
  same array object), or a single value, for which a new array is made.
\<close>

datatype mw_arg = MwArray nat | MwSingle middleware

definition Layer_new ::
  "pathToRegexp \<Rightarrow> store \<Rightarrow> string \<Rightarrow> string list \<Rightarrow> mw_arg \<Rightarrow> layer_opts
     \<Rightarrow> error + store \<times> nat" where
  "Layer_new ptr s path ms middleware opts =
     (let s1 = (case middleware of
                  MwArray a \<Rightarrow> s
                | MwSingle m \<Rightarrow> s\<lparr>arrays := arrays s @ [[m]]\<rparr>);
          st = (case middleware of MwArray a \<Rightarrow> a | MwSingle m \<Rightarrow> length (arrays s))
      in case find (\<lambda>f. typeof_mw f \<noteq> ''function'') (arrays s1 ! st) of
           Some f \<Rightarrow> Inl (ConfigError (typeof_mw f))
         | None \<Rightarrow>
             (let (names, re) = ptr path opts;
                  l = \<lparr>l_opts = opts,
                       l_name = (if truthy_str (o_name opts) then o_name opts else None),
                       l_methods = layer_methods ms,
                       l_paramNames = names,
                       l_stack = st,
                       l_path = path,
                       l_regexp = re\<rparr>
              in Inr (s1\<lparr>layers := layers s1 @ [l]\<rparr>, length (layers s1))))"

definition Layer_match :: "layer \<Rightarrow> string \<Rightarrow> bool" where
  "Layer_match l path = (l_regexp l path \<noteq> None)"

definition safeDecodeURIComponent :: "string \<Rightarrow> string" where
  "safeDecodeURIComponent t = (case decodeURIComponent t of Some d \<Rightarrow> d | None \<Rightarrow> t)"

text \<open>
  The parameter map \<open>ctx.params\<close>, a plain object written by key. Reading
  \<open>params[k]\<close> gives the own property, else the member of that name inherited from
  \<open>Object.prototype\<close>, else \<open>undefined\<close>.
\<close>

type_synonym params = "string \<rightharpoonup> string"

definition params_put :: "string \<Rightarrow> string \<Rightarrow> params \<Rightarrow> params" where
  "params_put k v ps = (if k = ''__proto__'' then ps else ps(k \<mapsto> v))"

datatype property = Own string | Inherited string | Undefined

definition params_get :: "params \<Rightarrow> string \<Rightarrow> property" where
  "params_get ps k =
     (case ps k of
        Some v \<Rightarrow> Own v
      | None \<Rightarrow> if k \<in> set object_prototype_names then Inherited k else Undefined)"

text \<open>
  The loop of \<open>Layer.prototype.params\<close> over \<open>i < captures.length\<close>: position \<open>i\<close> is
  skipped when \<open>paramNames[i]\<close> does not exist, and when the capture is \<open>undefined\<close> or
  the empty string.
\<close>

fun params_loop :: "string list \<Rightarrow> captures \<Rightarrow> params \<Rightarrow> params" where
  "params_loop names [] ps = ps"
| "params_loop [] (c # cs) ps = ps"
| "params_loop (n # names) (c # cs) ps =
     params_loop names cs
       (case c of
          None \<Rightarrow> ps
        | Some t \<Rightarrow> if t \<noteq> [] then params_put n (safeDecodeURIComponent t) ps else ps)"

definition Layer_params :: "layer \<Rightarrow> string \<Rightarrow> captures \<Rightarrow> params option \<Rightarrow> params" where
  "Layer_params l path caps existingParams =
     params_loop (l_paramNames l) caps
       (case existingParams of Some ps \<Rightarrow> ps | None \<Rightarrow> Map.empty)"

definition Layer_captures :: "layer \<Rightarrow> string \<Rightarrow> error + captures" where
  "Layer_captures l path =
     (if o_ignoreCaptures (l_opts l) then Inr []
      else case l_regexp l path of
             None \<Rightarrow> Inl (TypeError ''Cannot read properties of null'')
           | Some cs \<Rightarrow> Inr cs)"

text \<open>
  \<open>Layer.prototype.param\<close>. \<open>place\<close> is the \<open>stack.some\<close> loop: the wrapper goes in
  front of the first element that has no truthy \<open>param\<close> property or whose parameter
  comes after position \<open>x\<close>; when no element qualifies nothing is inserted.
\<close>

definition param_index :: "string list \<Rightarrow> middleware \<Rightarrow> int" where
  "param_index names f = (case mw_param f of Some p \<Rightarrow> indexOf names p | None \<Rightarrow> - 1)"

fun place :: "string list \<Rightarrow> int \<Rightarrow> middleware \<Rightarrow> middleware list \<Rightarrow> middleware list" where
  "place names x mw [] = []"
| "place names x mw (f # fs) =
     (if \<not> truthy_str (mw_param f) \<or> param_index names f > x then mw # f # fs
      else f # place names x mw fs)"

definition param_splice ::
  "string list \<Rightarrow> string \<Rightarrow> nat \<Rightarrow> middleware list \<Rightarrow> middleware list" where
  "param_splice names param fn stack =
     (let x = indexOf names param
      in if x > - 1 then place names x (ParamFn param fn) stack else stack)"

definition Layer_param :: "store \<Rightarrow> nat \<Rightarrow> string \<Rightarrow> nat \<Rightarrow> store" where
  "Layer_param s a param fn =
     (let l = layers s ! a; st = l_stack l
      in s\<lparr>arrays := (arrays s)[st := param_splice (l_paramNames l) param fn (arrays s ! st)]\<rparr>)"

definition Layer_setPrefix :: "pathToRegexp \<Rightarrow> store \<Rightarrow> nat \<Rightarrow> string \<Rightarrow> store" where
  "Layer_setPrefix ptr s a pre =
     (let l = layers s ! a
      in if l_path l \<noteq> [] then
           (let p = (if l_path l \<noteq> ''/'' \<or> o_strict (l_opts l) then pre @ l_path l else pre);
                (names, re) = ptr p (l_opts l)
            in s\<lparr>layers := (layers s)[a := l\<lparr>l_path := p, l_paramNames := names, l_regexp := re\<rparr>]\<rparr>)
         else s)"


subsection \<open>URL generation\<close>

text \<open>
  The arguments of \<open>url\<close> are arbitrary values. \<open>compile\<close> and \<open>parse\<close> of
  path-to-regexp and \<open>parse\<close>/\<open>format\<close> of the module \<open>url\<close> are parameters:
  \<open>lib_compile url options replace\<close> is \<open>compile(url, options)(replace)\<close>, which may
  throw; \<open>lib_parse url\<close> lists the tokens of \<open>url\<close>, each with its name when it has a
  truthy one; \<open>lib_format replaced query\<close> is the formatted URL with the query set.
\<close>

fun truthy_val :: "jsval \<Rightarrow> bool" where
  "truthy_val JUndefined = False"
| "truthy_val (JString s) = (s \<noteq> [])"
| "truthy_val (JNumber n) = (n \<noteq> 0)"
| "truthy_val v = True"

fun get_query :: "jsval \<Rightarrow> jsval" where
  "get_query (JObject kvs) = (case map_of kvs ''query'' of Some q \<Rightarrow> q | None \<Rightarrow> JUndefined)"
| "get_query v = JUndefined"

record urllib =
  lib_compile :: "string \<Rightarrow> jsval \<Rightarrow> jsval \<Rightarrow> error + string"
  lib_parse :: "string \<Rightarrow> string option list"
  lib_format :: "string \<Rightarrow> jsval \<Rightarrow> string"

text \<open>\<open>path.replace(/\(\.\*\)/g, '')\<close>: every occurrence of \<open>(.*)\<close> is removed.\<close>

fun strip_wildcards :: "string \<Rightarrow> string" where
  "strip_wildcards (a # b # c # d # cs) =
     (if [a, b, c, d] = ''(.*)'' then strip_wildcards cs
      else a # strip_wildcards (b # c # d # cs))"
| "strip_wildcards cs = cs"

text \<open>The loop \<open>replace[tokens[i].name] = args[j++]\<close> over the named tokens.\<close>

fun replace_args :: "string list \<Rightarrow> jsval list \<Rightarrow> jsval jsobj \<Rightarrow> jsval jsobj" where
  "replace_args [] as ob = ob"
| "replace_args (n # ns) [] ob = replace_args ns [] (obj_set n JUndefined ob)"
| "replace_args (n # ns) (a # as) ob = replace_args ns as (obj_set n a ob)"

definition Layer_url :: "urllib \<Rightarrow> layer \<Rightarrow> jsval list \<Rightarrow> error + string" where
  "Layer_url lib l arguments =
     (let params = (case arguments of [] \<Rightarrow> JUndefined | p # _ \<Rightarrow> p);
          options0 = (case arguments of _ # ob # _ \<Rightarrow> ob | _ \<Rightarrow> JUndefined);
          url = strip_wildcards (l_path l);
          sliced = (typeof_val params \<noteq> ''object'');
          trailing = (sliced \<and> arguments \<noteq> [] \<and> typeof_val (last arguments) = ''object'');
          args = (if sliced then JArray (if trailing then butlast arguments else arguments)
                  else params);
          options1 = (if trailing then last arguments else options0);
          named = List.map_filter id (lib_parse lib url);
          replace = (case args of
                       JArray as \<Rightarrow> JObject (replace_args named as [])
                     | _ \<Rightarrow> if named \<noteq> [] then params else JObject []);
          options2 = (case args of
                        JArray as \<Rightarrow> options1
                      | _ \<Rightarrow> if named = [] \<and> \<not> truthy_val options1 then params else options1)
      in case lib_compile lib url options1 replace of
           Inl e \<Rightarrow> Inl e
         | Inr replaced \<Rightarrow>
             if truthy_val options2 \<and> truthy_val (get_query options2)
             then Inr (lib_format lib replaced (get_query options2))
             else Inr replaced)"

section \<open>Router\<close>

definition default_methods :: "string list" where
  "default_methods = [''HEAD'', ''OPTIONS'', ''GET'', ''PUT'', ''PATCH'', ''POST'', ''DELETE'']"

definition Router_new :: "store \<Rightarrow> router_opts \<Rightarrow> store \<times> router" where
  "Router_new s opts =
     (s\<lparr>objects := objects s @ [[]]\<rparr>,
      \<lparr>r_opts = opts,
       r_methods = (case ro_methods opts of Some ms \<Rightarrow> ms | None \<Rightarrow> default_methods),
       r_params = length (objects s),
       r_stack = []\<rparr>)"

definition no_router_opts :: router_opts where
  "no_router_opts =
     \<lparr>ro_prefix = None, ro_sensitive = False, ro_strict = False, ro_methods = None,
      ro_routerPath = None\<rparr>"

definition no_layer_opts :: layer_opts where
  "no_layer_opts =
     \<lparr>o_end = True, o_name = None, o_sensitive = False, o_strict = False, o_prefix = [],
      o_ignoreCaptures = False\<rparr>"

text \<open>
  \<open>Router.prototype.param\<close>: store the validator under its name, then insert it into
  every layer of the stack.
\<close>

definition Router_param :: "store \<Rightarrow> router \<Rightarrow> string \<Rightarrow> nat \<Rightarrow> store" where
  "Router_param s r param fn =
     (let s1 = s\<lparr>objects := (objects s)[r_params r := obj_set param fn (objects s ! r_params r)]\<rparr>
      in fold (\<lambda>a st. Layer_param st a param fn) (r_stack r) s1)"

text \<open>
  \<open>Router.prototype.register\<close> for one path: create the layer, prefix it, insert the
  router's validators, push it.
\<close>

definition apply_params :: "store \<Rightarrow> nat \<Rightarrow> nat \<Rightarrow> store" where
  "apply_params s pr a =
     fold (\<lambda>param st.
        case map_of (objects st ! pr) param of
          Some fn \<Rightarrow> Layer_param st a param fn
        | None \<Rightarrow> st) (obj_keys (objects s ! pr)) s"

definition register_one ::
  "pathToRegexp \<Rightarrow> store \<Rightarrow> router \<Rightarrow> string \<Rightarrow> string list \<Rightarrow> mw_arg \<Rightarrow> layer_opts
     \<Rightarrow> error + store \<times> router" where
  "register_one ptr s r path ms middleware opts =
     (let pre = ro_prefix (r_opts r);
          lopts = \<lparr>o_end = o_end opts,
                   o_name = o_name opts,
                   o_sensitive = (o_sensitive opts \<or> ro_sensitive (r_opts r)),
                   o_strict = (o_strict opts \<or> ro_strict (r_opts r)),
                   o_prefix = (if o_prefix opts \<noteq> [] then o_prefix opts
                               else case pre of Some p \<Rightarrow> p | None \<Rightarrow> []),
                   o_ignoreCaptures = o_ignoreCaptures opts\<rparr>
      in case Layer_new ptr s path ms middleware lopts of
           Inl e \<Rightarrow> Inl e
         | Inr (s1, a) \<Rightarrow>
             (let s2 = (case pre of
                          Some p \<Rightarrow> if p \<noteq> [] then Layer_setPrefix ptr s1 a p else s1
                        | None \<Rightarrow> s1);
                  s3 = apply_params s2 (r_params r) a
              in Inr (s3, r\<lparr>r_stack := r_stack r @ [a]\<rparr>)))"

fun register_paths ::
  "pathToRegexp \<Rightarrow> store \<Rightarrow> router \<Rightarrow> string list \<Rightarrow> string list \<Rightarrow> mw_arg \<Rightarrow> layer_opts
     \<Rightarrow> error + store \<times> router" where
  "register_paths ptr s r [] ms middleware opts = Inr (s, r)"
| "register_paths ptr s r (p # ps) ms middleware opts =
     (case register_one ptr s r p ms middleware opts of
        Inl e \<Rightarrow> Inl e
      | Inr (s1, r1) \<Rightarrow> register_paths ptr s1 r1 ps ms middleware opts)"

datatype path_arg = PathStr string | PathArr "string list"

definition Router_register ::
  "pathToRegexp \<Rightarrow> store \<Rightarrow> router \<Rightarrow> path_arg \<Rightarrow> string list \<Rightarrow> mw_arg \<Rightarrow> layer_opts
     \<Rightarrow> error + store \<times> router" where
  "Router_register ptr s r path ms middleware opts =
     (case path of
        PathArr ps \<Rightarrow> register_paths ptr s r ps ms middleware opts
      | PathStr p \<Rightarrow> register_one ptr s r p ms middleware opts)"

text \<open>
  The functions \<open>router.get\<close>, \<open>router.post\<close>, ...: \<open>Router_verb method\<close> is the function
  installed for \<open>method\<close>. Its arguments are strings, arrays of strings and middleware
  values; the rest arguments are copied into a new array, which \<open>register\<close> receives.
\<close>

datatype arg = AStr string | AArr "string list" | AMw middleware

fun arg_mw :: "arg \<Rightarrow> middleware" where
  "arg_mw (AMw m) = m"
| "arg_mw (AStr p) = NotFn (JString p)"
| "arg_mw (AArr ps) = NotFn (JArray (map JString ps))"

definition Router_verb ::
  "pathToRegexp \<Rightarrow> string \<Rightarrow> store \<Rightarrow> router \<Rightarrow> arg list \<Rightarrow> error + store \<times> router" where
  "Router_verb ptr method s r arguments =
     (let named = (case arguments of _ # AStr p # _ \<Rightarrow> True | _ \<Rightarrow> False);
          middleware = map arg_mw (drop (if named then 2 else 1) arguments);
          path = (if named then arguments ! 1
                  else case arguments of [] \<Rightarrow> AMw (NotFn JUndefined) | a # _ \<Rightarrow> a);
          name = (if named then (case arguments of AStr n # _ \<Rightarrow> Some n | _ \<Rightarrow> None) else None);
          s1 = s\<lparr>arrays := arrays s @ [middleware]\<rparr>;
          st = MwArray (length (arrays s));
          opts = no_layer_opts\<lparr>o_name := name\<rparr>
      in case path of
           AStr p \<Rightarrow> Router_register ptr s1 r (PathStr p) [method] st opts
         | AArr ps \<Rightarrow> Router_register ptr s1 r (PathArr ps) [method] st opts
         | AMw m \<Rightarrow>
             (case find (\<lambda>f. typeof_mw f \<noteq> ''function'') middleware of
                Some f \<Rightarrow> Inl (ConfigError (typeof_mw f))
              | None \<Rightarrow> Inl (TypeError ''path is not a string'')))"


subsection \<open>use\<close>

text \<open>
  Mounting a dispatcher. Every layer of the nested router is copied with
  \<open>Object.assign(Object.create(Layer.prototype), nestedLayer)\<close>: a new \<open>Layer\<close> object
  with the same field values, so the copy's \<open>stack\<close> is the same array as the nested
  layer's. The copy is prefixed and pushed. \<open>cloneRouter\<close> is a copy of the nested router
  (the same \<open>params\<close> object) whose stack holds the copies; the mounting router's
  validators are applied through \<open>cloneRouter.param\<close>.
\<close>

definition clone_layer :: "pathToRegexp \<Rightarrow> string option \<Rightarrow> string option \<Rightarrow> nat \<Rightarrow> store \<Rightarrow> store" where
  "clone_layer ptr path pre a s =
     (let c = length (layers s);
          s1 = s\<lparr>layers := layers s @ [layers s ! a]\<rparr>;
          s2 = (case path of
                  Some p \<Rightarrow> if p \<noteq> [] then Layer_setPrefix ptr s1 c p else s1
                | None \<Rightarrow> s1)
      in case pre of
           Some p \<Rightarrow> if p \<noteq> [] then Layer_setPrefix ptr s2 c p else s2
         | None \<Rightarrow> s2)"

definition mount_params :: "store \<Rightarrow> router \<Rightarrow> router \<Rightarrow> store" where
  "mount_params s r cloneRouter =
     fold (\<lambda>key st.
        case map_of (objects st ! r_params r) key of
          Some fn \<Rightarrow> Router_param st cloneRouter key fn
        | None \<Rightarrow> st) (obj_keys (objects s ! r_params r)) s"

definition mount :: "pathToRegexp \<Rightarrow> store \<Rightarrow> router \<Rightarrow> string option \<Rightarrow> router \<Rightarrow> store \<times> router" where
  "mount ptr s r path nested =
     (let n = length (layers s);
          s1 = fold (clone_layer ptr path (ro_prefix (r_opts r))) (r_stack nested) s;
          clones = [n ..< n + length (r_stack nested)];
          cloneRouter = nested\<lparr>r_stack := clones\<rparr>
      in (mount_params s1 r cloneRouter, r\<lparr>r_stack := r_stack r @ clones\<rparr>))"

text \<open>
  One round of the loop over the middleware arguments. A value that is not a dispatcher
  is registered as a layer without methods that matches by prefix; an array becomes the
  layer's stack as it is.
\<close>

definition use_one ::
  "pathToRegexp \<Rightarrow> store \<Rightarrow> router \<Rightarrow> string option \<Rightarrow> arg \<Rightarrow> error + store \<times> router" where
  "use_one ptr s r path m =
     (case m of
        AMw (Dispatch nested) \<Rightarrow> Inr (mount ptr s r path nested)
      | _ \<Rightarrow>
          (let pre = ro_prefix (r_opts r);
               keys = fst (ptr (case pre of Some p \<Rightarrow> p | None \<Rightarrow> []) no_layer_opts);
               routerPrefixHasParam = (truthy_str pre \<and> keys \<noteq> []);
               opts = no_layer_opts\<lparr>o_end := False,
                        o_ignoreCaptures := (path = None \<and> \<not> routerPrefixHasParam)\<rparr>;
               p = (case path of Some q \<Rightarrow> if q \<noteq> [] then q else ''([^/]*)'' | None \<Rightarrow> ''([^/]*)'')
           in case m of
                AArr ps \<Rightarrow>
                  register_one ptr (s\<lparr>arrays := arrays s @ [map (\<lambda>q. NotFn (JString q)) ps]\<rparr>) r p []
                    (MwArray (length (arrays s))) opts
              | _ \<Rightarrow> register_one ptr s r p [] (MwSingle (arg_mw m)) opts))"

fun use_loop ::
  "pathToRegexp \<Rightarrow> store \<Rightarrow> router \<Rightarrow> string option \<Rightarrow> arg list \<Rightarrow> error + store \<times> router" where
  "use_loop ptr s r path [] = Inr (s, r)"
| "use_loop ptr s r path (m # ms) =
     (case use_one ptr s r path m of
        Inl e \<Rightarrow> Inl e
      | Inr (s1, r1) \<Rightarrow> use_loop ptr s1 r1 path ms)"

fun use_paths ::
  "pathToRegexp \<Rightarrow> store \<Rightarrow> router \<Rightarrow> string list \<Rightarrow> arg list \<Rightarrow> error + store \<times> router" where
  "use_paths ptr s r [] ms = Inr (s, r)"
| "use_paths ptr s r (p # ps) ms =
     (case use_loop ptr s r (Some p) ms of
        Inl e \<Rightarrow> Inl e
      | Inr (s1, r1) \<Rightarrow> use_paths ptr s1 r1 ps ms)"

definition Router_use ::
  "pathToRegexp \<Rightarrow> store \<Rightarrow> router \<Rightarrow> arg list \<Rightarrow> error + store \<times> router" where
  "Router_use ptr s r arguments =
     (case arguments of
        AArr (p # ps) # ms \<Rightarrow> use_paths ptr s r (p # ps) ms
      | AStr p # ms \<Rightarrow> use_loop ptr s r (Some p) ms
      | _ \<Rightarrow> use_loop ptr s r None arguments)"

subsection \<open>prefix\<close>

definition strip_slash :: "string \<Rightarrow> string" where
  "strip_slash p = (if p \<noteq> [] \<and> last p = CHR ''/'' then butlast p else p)"

definition Router_prefix :: "pathToRegexp \<Rightarrow> store \<Rightarrow> router \<Rightarrow> string \<Rightarrow> store \<times> router" where
  "Router_prefix ptr s r p =
     (let pre = strip_slash p
      in (fold (\<lambda>a st. Layer_setPrefix ptr st a pre) (r_stack r) s,
          r\<lparr>r_opts := (r_opts r)\<lparr>ro_prefix := Some pre\<rparr>\<rparr>))"

subsection \<open>match, route, url\<close>

record matched =
  m_path :: "nat list"
  m_pathAndMethod :: "nat list"
  m_route :: bool

fun match_loop :: "store \<Rightarrow> string \<Rightarrow> string \<Rightarrow> nat list \<Rightarrow> matched \<Rightarrow> matched" where
  "match_loop s path method [] m = m"
| "match_loop s path method (a # as) m =
     (let layer = layers s ! a
      in match_loop s path method as
           (if Layer_match layer path then
              (let m1 = m\<lparr>m_path := m_path m @ [a]\<rparr>
               in if l_methods layer = [] \<or> indexOf (l_methods layer) method \<noteq> - 1 then
                    (let m2 = m1\<lparr>m_pathAndMethod := m_pathAndMethod m1 @ [a]\<rparr>
                     in if l_methods layer \<noteq> [] then m2\<lparr>m_route := True\<rparr> else m2)
                  else m1)
            else m))"

definition Router_match :: "store \<Rightarrow> router \<Rightarrow> string \<Rightarrow> string \<Rightarrow> matched" where
  "Router_match s r path method =
     match_loop s path method (r_stack r)
       \<lparr>m_path = [], m_pathAndMethod = [], m_route = False\<rparr>"

text \<open>\<open>Router.prototype.route\<close>: the first layer with the name, or \<open>false\<close> (\<open>None\<close>).\<close>

definition Router_route :: "store \<Rightarrow> router \<Rightarrow> string \<Rightarrow> nat option" where
  "Router_route s r name =
     find (\<lambda>a. truthy_str (l_name (layers s ! a)) \<and> l_name (layers s ! a) = Some name) (r_stack r)"

text \<open>
  \<open>Router.prototype.url\<close> returns a string, or an \<open>Error\<close> object as its value; an
  exception of \<open>Layer.prototype.url\<close> is the left summand.
\<close>

datatype url_result = UrlString string | ErrorValue string

definition Router_url :: "urllib \<Rightarrow> store \<Rightarrow> router \<Rightarrow> string \<Rightarrow> jsval list \<Rightarrow> error + url_result" where
  "Router_url lib s r name args =
     (case Router_route s r name of
        Some a \<Rightarrow>
          (case Layer_url lib (layers s ! a) args of
             Inl e \<Rightarrow> Inl e
           | Inr u \<Rightarrow> Inr (UrlString u))
      | None \<Rightarrow> Inr (ErrorValue (''No route found for name: '' @ name)))"


section \<open>Serving a request\<close>

text \<open>
  The context of one request. \<open>c_state\<close> is \<open>ctx.state\<close>, the place for the
  application's own data. A middleware is a function of the context and of \<open>next\<close>; it
  returns (resolves with) the context or fails (rejects) with an error. What the user's
  functions do is a parameter: \<open>call_fn\<close> for the middleware functions and
  \<open>call_validator\<close> for the functions given to \<open>param\<close>, called with the parameter's
  value first.
\<close>

record 'u ctx =
  c_method :: string
  c_path :: string
  c_routerPath :: "string option"
  c_status :: "nat option"
  c_body :: "string option"
  c_headers :: "string \<rightharpoonup> string"
  c_params :: "params option"
  c_captures :: "captures option"
  c_matched :: "nat list option"
  c_router :: "router option"
  c_routerName :: "string option"
  c_matchedRoute :: "string option"
  c_matchedRouteName :: "string option"
  c_state :: 'u

type_synonym 'u outcome = "error + 'u ctx"
type_synonym 'u handler = "'u ctx \<Rightarrow> ('u ctx \<Rightarrow> 'u outcome) \<Rightarrow> 'u outcome"

record 'u world =
  call_fn :: "middleware \<Rightarrow> 'u handler"
  call_validator :: "nat \<Rightarrow> property \<Rightarrow> 'u handler"

definition run_mw :: "'u world \<Rightarrow> middleware \<Rightarrow> 'u handler" where
  "run_mw w m c next =
     (case m of
        ParamFn p fn \<Rightarrow>
          (case c_params c of
             None \<Rightarrow> Inl (TypeError ''Cannot read properties of undefined'')
           | Some ps \<Rightarrow> call_validator w fn (params_get ps p) c next)
      | NotFn t \<Rightarrow> Inl (TypeError ''fn is not a function'')
      | _ \<Rightarrow> call_fn w m c next)"

text \<open>The function \<open>dispatch\<close> pushes in front of each matched layer's stack.\<close>

definition bind_layer :: "layer \<Rightarrow> string \<Rightarrow> 'u ctx \<Rightarrow> 'u outcome" where
  "bind_layer l path c =
     (case Layer_captures l path of
        Inl e \<Rightarrow> Inl e
      | Inr caps \<Rightarrow>
          Inr (c\<lparr>c_captures := Some caps,
                 c_params := Some (Layer_params l path caps (c_params c)),
                 c_routerPath := Some (l_path l),
                 c_routerName := l_name l,
                 c_matchedRoute := Some (l_path l),
                 c_matchedRouteName :=
                   (if truthy_str (l_name l) then l_name l else c_matchedRouteName c)\<rparr>))"

datatype step = Binder layer | Mw middleware

text \<open>
  \<open>koa-compose\<close>: every element must be a function; each one runs with a \<open>next\<close> that
  runs the rest, and the last \<open>next\<close> is the caller's.
\<close>

fun compose :: "'u world \<Rightarrow> string \<Rightarrow> step list \<Rightarrow> 'u handler" where
  "compose w path [] c next = next c"
| "compose w path (Binder l # rest) c next =
     (case bind_layer l path c of
        Inl e \<Rightarrow> Inl e
      | Inr c' \<Rightarrow> compose w path rest c' next)"
| "compose w path (Mw m # rest) c next =
     run_mw w m c (\<lambda>c'. compose w path rest c' next)"

fun is_function :: "step \<Rightarrow> bool" where
  "is_function (Binder l) = True"
| "is_function (Mw m) = (typeof_mw m = ''function'')"

definition koa_compose :: "'u world \<Rightarrow> string \<Rightarrow> step list \<Rightarrow> 'u handler" where
  "koa_compose w path chain c next =
     (if list_all is_function chain then compose w path chain c next
      else Inl (TypeError ''Middleware must be composed of functions!''))"

definition or_str :: "string option \<Rightarrow> string \<Rightarrow> string" where
  "or_str a d = (case a of Some s \<Rightarrow> if s \<noteq> [] then s else d | None \<Rightarrow> d)"

definition layer_chain :: "store \<Rightarrow> nat list \<Rightarrow> step list" where
  "layer_chain s matchedLayers =
     foldl (\<lambda>memo a. (memo @ [Binder (layers s ! a)]) @ map Mw (arrays s ! l_stack (layers s ! a)))
       [] matchedLayers"

definition dispatch :: "'u world \<Rightarrow> store \<Rightarrow> router \<Rightarrow> 'u handler" where
  "dispatch w s r c next =
     (let path = or_str (ro_routerPath (r_opts r)) (or_str (c_routerPath c) (c_path c));
          m = Router_match s r path (c_method c);
          c1 = c\<lparr>c_matched := Some (case c_matched c of
                                       Some ms \<Rightarrow> ms @ m_path m
                                     | None \<Rightarrow> m_path m),
                 c_router := Some r\<rparr>
      in if \<not> m_route m then next c1
         else
           (let matchedLayers = m_pathAndMethod m;
                mostSpecificLayer = layers s ! (matchedLayers ! (length matchedLayers - 1));
                c2 = c1\<lparr>c_matchedRoute := Some (l_path mostSpecificLayer),
                        c_matchedRouteName :=
                          (if truthy_str (l_name mostSpecificLayer) then l_name mostSpecificLayer
                           else c_matchedRouteName c1)\<rparr>
            in koa_compose w path (layer_chain s matchedLayers) c2 next))"

subsection \<open>allowedMethods\<close>

record am_options =
  am_throw :: bool
  am_notImplemented :: "error option"
  am_methodNotAllowed :: "error option"

text \<open>The object \<open>allowed\<close>: every method of every layer in \<open>ctx.matched\<close>, as key and value.\<close>

definition allowed_of :: "store \<Rightarrow> nat list \<Rightarrow> string jsobj" where
  "allowed_of s ms =
     fold (\<lambda>route ob. fold (\<lambda>method ob'. obj_set method method ob') (l_methods (layers s ! route)) ob)
       ms []"

definition set_header :: "string \<Rightarrow> string \<Rightarrow> 'u ctx \<Rightarrow> 'u ctx" where
  "set_header k v c = c\<lparr>c_headers := (c_headers c)(k \<mapsto> v)\<rparr>"

text \<open>The function that runs after \<open>next()\<close> has resolved.\<close>

definition after_next :: "am_options \<Rightarrow> string list \<Rightarrow> store \<Rightarrow> 'u ctx \<Rightarrow> 'u outcome" where
  "after_next options implemented s c =
     (if c_status c = None \<or> c_status c = Some 0 \<or> c_status c = Some 404 then
        (case c_matched c of
           None \<Rightarrow> Inl (TypeError ''Cannot read properties of undefined'')
         | Some ms \<Rightarrow>
             (let allowed = allowed_of s ms;
                  allowedArr = obj_keys allowed
              in if indexOf implemented (c_method c) = - 1 then
                   (if am_throw options then
                      Inl (case am_notImplemented options of Some e \<Rightarrow> e | None \<Rightarrow> HttpError 501)
                    else Inr (set_header ''Allow'' (join '', '' allowedArr) (c\<lparr>c_status := Some 501\<rparr>)))
                 else if allowedArr \<noteq> [] then
                   (if c_method c = ''OPTIONS'' then
                      Inr (set_header ''Allow'' (join '', '' allowedArr)
                             (c\<lparr>c_status := Some 200, c_body := Some []\<rparr>))
                    else if \<not> obj_truthy allowed (c_method c) then
                      (if am_throw options then
                         Inl (case am_methodNotAllowed options of Some e \<Rightarrow> e | None \<Rightarrow> HttpError 405)
                       else Inr (set_header ''Allow'' (join '', '' allowedArr) (c\<lparr>c_status := Some 405\<rparr>)))
                    else Inr c)
                 else Inr c))
      else Inr c)"

definition Router_allowedMethods :: "am_options \<Rightarrow> router \<Rightarrow> store \<Rightarrow> 'u handler" where
  "Router_allowedMethods options r s c next =
     (case next c of
        Inl e \<Rightarrow> Inl e
      | Inr c' \<Rightarrow> after_next options (r_methods r) s c')"


section \<open>A pattern compiler for the examples\<close>

text \<open>
  The examples need a concrete \<open>pathToRegexp\<close>. \<open>segment_ptr\<close> compiles the patterns
  the examples use, a sequence of \<open>/literal\<close> and \<open>/:name\<close> segments, the way
  path-to-regexp does: a named segment captures one non-empty path segment, literals
  compare without case unless \<open>sensitive\<close> is set, one trailing \<open>/\<close> is accepted unless
  \<open>strict\<close> is set, and without \<open>end\<close> the pattern matches a prefix of whole segments.
\<close>

fun split_on :: "char \<Rightarrow> string \<Rightarrow> string list" where
  "split_on d [] = [[]]"
| "split_on d (c # cs) =
     (if c = d then [] # split_on d cs
      else case split_on d cs of x # xs \<Rightarrow> (c # x) # xs | [] \<Rightarrow> [[c]])"

datatype token = Lit string | Param string

definition tokens_of :: "string \<Rightarrow> token list" where
  "tokens_of pattern =
     (let segs = tl (split_on CHR ''/'' pattern);
          segs' = (if segs \<noteq> [] \<and> last segs = [] then butlast segs else segs)
      in map (\<lambda>seg. case seg of
                       c # n \<Rightarrow> if c = CHR '':'' then Param n else Lit seg
                     | [] \<Rightarrow> Lit []) segs')"

fun token_names :: "token list \<Rightarrow> string list" where
  "token_names [] = []"
| "token_names (Param n # ts) = n # token_names ts"
| "token_names (Lit x # ts) = token_names ts"

fun match_tokens :: "bool \<Rightarrow> token list \<Rightarrow> string list \<Rightarrow> (captures \<times> string list) option" where
  "match_tokens cs [] segs = Some ([], segs)"
| "match_tokens cs (t # ts) [] = None"
| "match_tokens cs (Lit x # ts) (g # segs) =
     (if (if cs then x = g else toUpperCase x = toUpperCase g) then match_tokens cs ts segs
      else None)"
| "match_tokens cs (Param n # ts) (g # segs) =
     (if g \<noteq> [] then
        (case match_tokens cs ts segs of
           Some (caps, rest) \<Rightarrow> Some (Some g # caps, rest)
         | None \<Rightarrow> None)
      else None)"

definition segment_exec :: "layer_opts \<Rightarrow> token list \<Rightarrow> regexp" where
  "segment_exec opts ts path =
     (case split_on CHR ''/'' path of
        [] \<Rightarrow> None
      | h # segs \<Rightarrow>
          (if h \<noteq> [] then None
           else (case match_tokens (o_sensitive opts) ts segs of
                   None \<Rightarrow> None
                 | Some (caps, rest) \<Rightarrow>
                     if \<not> o_end opts \<or> rest = [] \<or> (rest = [[]] \<and> \<not> o_strict opts)
                     then Some caps else None)))"

definition segment_ptr :: pathToRegexp where
  "segment_ptr pattern opts =
     (token_names (tokens_of pattern), segment_exec opts (tokens_of pattern))"

section \<open>Example registries\<close>

definition ex_store0 :: store where
  "ex_store0 = fst (Router_new empty_store no_router_opts)"

definition ex_router0 :: router where
  "ex_router0 = snd (Router_new empty_store no_router_opts)"

datatype event = Called middleware | Validated nat property

definition trace_world :: "event list world" where
  "trace_world =
     \<lparr>call_fn = (\<lambda>m c next. next (c\<lparr>c_state := c_state c @ [Called m]\<rparr>)),
      call_validator = (\<lambda>fn v c next. next (c\<lparr>c_state := c_state c @ [Validated fn v]\<rparr>))\<rparr>"

definition request :: "string \<Rightarrow> string \<Rightarrow> event list ctx" where
  "request method path =
     \<lparr>c_method = method, c_path = path, c_routerPath = None, c_status = Some 404,
      c_body = None, c_headers = Map.empty, c_params = None, c_captures = None,
      c_matched = None, c_router = None, c_routerName = None, c_matchedRoute = None,
      c_matchedRouteName = None, c_state = []\<rparr>"

definition or_else :: "error + store \<times> router \<Rightarrow> store \<times> router" where
  "or_else x = (case x of Inr sr \<Rightarrow> sr | Inl e \<Rightarrow> (empty_store, snd (Router_new empty_store no_router_opts)))"

definition ex_users :: "store \<times> router" where
  "ex_users = or_else (Router_verb segment_ptr ''get'' ex_store0 ex_router0
       [AStr ''/users/:id'', AMw (Fn 1 None)])"

definition ex_optional :: layer where
  "ex_optional =
     \<lparr>l_opts = no_layer_opts, l_name = None, l_methods = [''HEAD'', ''GET''],
      l_paramNames = [''id'', ''format''], l_stack = 0, l_path = ''/users/:id/:format?'',
      l_regexp = (\<lambda>p. if p = ''/users/7'' then Some [Some ''7'', None] else None)\<rparr>"

definition ex_mounted_only :: "store \<times> router" where
  "ex_mounted_only = or_else (Router_use segment_ptr ex_store0 ex_router0
       [AStr ''/x'', AMw (Fn 2 None)])"

text \<open>
  A stand-in for the URL libraries on the patterns of \<open>segment_ptr\<close>: a named segment
  is replaced by the string given for it, and the query is appended after \<open>?\<close>.
\<close>

fun fill_tokens :: "token list \<Rightarrow> (string \<times> jsval) list \<Rightarrow> error + string" where
  "fill_tokens [] kvs = Inr []"
| "fill_tokens (Lit x # ts) kvs =
     (case fill_tokens ts kvs of Inl e \<Rightarrow> Inl e | Inr u \<Rightarrow> Inr (''/'' @ x @ u))"
| "fill_tokens (Param n # ts) kvs =
     (case map_of kvs n of
        Some (JString v) \<Rightarrow>
          (case fill_tokens ts kvs of Inl e \<Rightarrow> Inl e | Inr u \<Rightarrow> Inr (''/'' @ v @ u))
      | _ \<Rightarrow> Inl (TypeError (''Expected '' @ n @ '' to be a string'')))"

definition ex_lib :: urllib where
  "ex_lib =
     \<lparr>lib_compile = (\<lambda>url options replace.
         case replace of
           JObject kvs \<Rightarrow> fill_tokens (tokens_of url) kvs
         | _ \<Rightarrow> fill_tokens (tokens_of url) []),
      lib_parse = (\<lambda>url. map (\<lambda>t. case t of Param n \<Rightarrow> Some n | Lit x \<Rightarrow> None) (tokens_of url)),
      lib_format = (\<lambda>replaced q. replaced @ ''?'' @ (case q of JString v \<Rightarrow> v | _ \<Rightarrow> []))\<rparr>"

definition ex_named :: "store \<times> router" where
  "ex_named =
     (let (s1, r1) = or_else (Router_verb segment_ptr ''get'' ex_store0 ex_router0
              [AStr ''user'', AStr ''/users/:id'', AMw (Fn 1 None)])
      in or_else (Router_verb segment_ptr ''get'' s1 r1
              [AStr ''user'', AStr ''/u/:id'', AMw (Fn 2 None)]))"

text \<open>
  The statement of the Methods Guard uses three notions of the specification: a method
  name is a non-empty string of upper-case letters and hyphens; the methods of the
  accumulated layers, in order; and a list with its duplicates removed, each element
  staying at its first place.
\<close>

definition method_name :: "string \<Rightarrow> bool" where
  "method_name m = (m \<noteq> [] \<and> list_all (\<lambda>c. c \<in> set ''ABCDEFGHIJKLMNOPQRSTUVWXYZ-'') m)"

definition matched_methods :: "store \<Rightarrow> nat list \<Rightarrow> string list" where
  "matched_methods s ms = concat (map (\<lambda>a. l_methods (layers s ! a)) ms)"

fun first_seen :: "'a list \<Rightarrow> 'a list" where
  "first_seen [] = []"
| "first_seen (x # xs) = x # removeAll x (first_seen xs)"

definition ex_get_post :: "store \<times> router" where
  "ex_get_post =
     (let (s1, r1) = or_else (Router_verb segment_ptr ''get'' ex_store0 ex_router0
              [AStr ''/x'', AMw (Fn 1 None)])
      in or_else (Router_verb segment_ptr ''post'' s1 r1 [AStr ''/x'', AMw (Fn 2 None)]))"

definition no_am_options :: am_options where
  "no_am_options = \<lparr>am_throw = False, am_notImplemented = None, am_methodNotAllowed = None\<rparr>"

text \<open>
  An application with \<open>app.use(router.routes())\<close> and then
  \<open>app.use(router.allowedMethods())\<close>, in \<open>trace_world\<close>: the dispatcher runs with the
  Methods Guard as its \<open>next\<close>.
\<close>

definition serve :: "store \<times> router \<Rightarrow> event list ctx \<Rightarrow> event list outcome" where
  "serve sr c =
     dispatch trace_world (fst sr) (snd sr) c
       (\<lambda>c'. Router_allowedMethods no_am_options (snd sr) (fst sr) c' Inr)"

definition is_validator :: "middleware \<Rightarrow> bool" where
  "is_validator m = truthy_str (mw_param m)"

definition ex_two_paths :: "store \<times> router" where
  "ex_two_paths = or_else (Router_verb segment_ptr ''get'' ex_store0 ex_router0
       [AArr [''/a/:x'', ''/b''], AMw (Fn 1 None)])"

definition ex_two_orders :: "store \<times> router" where
  "ex_two_orders = or_else (Router_verb segment_ptr ''get'' ex_store0 ex_router0
       [AArr [''/a/:x/:y'', ''/b/:y/:x''], AMw (Fn 1 None)])"

text \<open>
  The run of a chain. A function \<open>m\<close> continues with \<open>act\<close> when, called by the
  chain in a context that has a parameter map, it hands \<open>act m\<close> of the context to
  \<open>next\<close>, returns what \<open>next\<close> returns, and leaves a parameter map in place; what
  it does to the context is otherwise free. \<open>bound\<close> is the context after the binder of
  a layer and \<open>chain_run\<close> the context after the steps of a chain, in order. A function
  keeps the route when it writes none of \<open>ctx.params\<close>, \<open>ctx._matchedRoute\<close> and
  \<open>ctx._matchedRouteName\<close>.
\<close>

definition continues :: "'u world \<Rightarrow> (middleware \<Rightarrow> 'u ctx \<Rightarrow> 'u ctx) \<Rightarrow> middleware \<Rightarrow> bool" where
  "continues w act m =
     (\<forall>c next. c_params c \<noteq> None \<longrightarrow>
        run_mw w m c next = next (act m c) \<and> c_params (act m c) \<noteq> None)"




definition keeps_route :: "(middleware \<Rightarrow> 'u ctx \<Rightarrow> 'u ctx) \<Rightarrow> middleware \<Rightarrow> bool" where
  "keeps_route act m =
     (\<forall>c. c_params (act m c) = c_params c
          \<and> c_matchedRoute (act m c) = c_matchedRoute c
          \<and> c_matchedRouteName (act m c) = c_matchedRouteName c)"


text \<open>
  A world of handlers that answer: every middleware function writes the parameter
  \<open>id\<close> to the body and calls \<open>next\<close>, every validator calls \<open>next\<close>.
\<close>

definition reply_world :: "'u world" where
  "reply_world =
     \<lparr>call_fn = (\<lambda>m c next.
         next (c\<lparr>c_body := (case c_params c of Some ps \<Rightarrow> ps ''id'' | None \<Rightarrow> None)\<rparr>)),
      call_validator = (\<lambda>fn v c next. next c)\<rparr>"

definition reply_act :: "middleware \<Rightarrow> 'u ctx \<Rightarrow> 'u ctx" where
  "reply_act m c =
     (case m of
        ParamFn p fn \<Rightarrow> c
      | _ \<Rightarrow> c\<lparr>c_body := (case c_params c of Some ps \<Rightarrow> ps ''id'' | None \<Rightarrow> None)\<rparr>)"



text \<open>
  What \<open>setPrefix\<close> does to the fields of a layer, and the two conditional calls of the
  mount.
\<close>

definition set_prefix :: "pathToRegexp \<Rightarrow> string \<Rightarrow> layer \<Rightarrow> layer" where
  "set_prefix ptr pre l =
     (if l_path l \<noteq> [] then
        (let p = (if l_path l \<noteq> ''/'' \<or> o_strict (l_opts l) then pre @ l_path l else pre);
             (names, re) = ptr p (l_opts l)
         in l\<lparr>l_path := p, l_paramNames := names, l_regexp := re\<rparr>)
      else l)"

definition opt_prefix :: "pathToRegexp \<Rightarrow> string option \<Rightarrow> layer \<Rightarrow> layer" where
  "opt_prefix ptr pre l =
     (case pre of Some p \<Rightarrow> if p \<noteq> [] then set_prefix ptr p l else l | None \<Rightarrow> l)"

definition ex_nested :: "store \<times> router" where
  "ex_nested = or_else (Router_verb segment_ptr ''get'' ex_store0 ex_router0
       [AStr ''/:id'', AMw (Fn 1 None)])"

definition ex_parent :: "store \<times> router" where
  "ex_parent =
     (let (s1, r1) = Router_new (fst ex_nested) no_router_opts
      in or_else (Router_use segment_ptr s1 r1 [AStr ''/p'', AMw (Dispatch (snd ex_nested))]))"

definition ex_validated_parent :: "store \<times> router" where
  "ex_validated_parent =
     (let (s1, r1) = Router_new (fst ex_nested) no_router_opts;
          s2 = Router_param s1 r1 ''id'' 7
      in or_else (Router_use segment_ptr s2 r1 [AStr ''/p'', AMw (Dispatch (snd ex_nested))]))"

section \<open>Properties\<close>

lemma indexOf_ge: "- 1 \<le> indexOf xs x"
  by (induction xs) (auto simp: Let_def)

subsection \<open>Frames of the layer operations\<close>

lemma layer_methods_step:
  "''GET'' \<in> set acc \<longrightarrow> ''HEAD'' \<in> set acc \<Longrightarrow>
   ''GET'' \<in> set (foldl (\<lambda>acc m.
        let acc' = acc @ [toUpperCase m]; l = length acc'
        in if acc' ! (l - 1) = ''GET'' then ''HEAD'' # acc' else acc') acc ms)
   \<longrightarrow> ''HEAD'' \<in> set (foldl (\<lambda>acc m.
        let acc' = acc @ [toUpperCase m]; l = length acc'
        in if acc' ! (l - 1) = ''GET'' then ''HEAD'' # acc' else acc') acc ms)"
proof (induction ms arbitrary: acc)
  case Nil
  then show ?case by simp
next
  case (Cons m ms)
  show ?case
    unfolding foldl_Cons
    by (rule Cons.IH) (use Cons.prems in \<open>auto simp: Let_def nth_append\<close>)
qed

lemma layer_methods_head:
  "''GET'' \<in> set (layer_methods ms) \<longrightarrow> ''HEAD'' \<in> set (layer_methods ms)"
  unfolding layer_methods_def by (rule layer_methods_step) simp

lemma layer_methods_set_step:
  "set (foldl (\<lambda>acc m.
        let acc' = acc @ [toUpperCase m]; l = length acc'
        in if acc' ! (l - 1) = ''GET'' then ''HEAD'' # acc' else acc') acc ms)
   = set acc \<union> toUpperCase ` set ms \<union> (if ''GET'' \<in> toUpperCase ` set ms then {''HEAD''} else {})"
  by (induction ms arbitrary: acc) (auto simp: Let_def nth_append)

lemma layer_methods_set:
  "set (layer_methods ms)
   = toUpperCase ` set ms \<union> (if ''GET'' \<in> toUpperCase ` set ms then {''HEAD''} else {})"
  unfolding layer_methods_def layer_methods_set_step by simp

lemma Layer_new_Inr:
  assumes "Layer_new ptr s path ms mw opts = Inr (s', a)"
  shows "a = length (layers s)"
    and "length (layers s') = Suc (length (layers s))"
    and "b < length (layers s) \<Longrightarrow> layers s' ! b = layers s ! b"
    and "l_methods (layers s' ! length (layers s)) = layer_methods ms"
    and "objects s' = objects s"
  using assms
  by (auto simp: Layer_new_def Let_def nth_append split: option.splits mw_arg.splits prod.splits)

lemma setPrefix_length [simp]: "length (layers (Layer_setPrefix ptr s a p)) = length (layers s)"
  by (simp add: Layer_setPrefix_def Let_def split: prod.splits)

lemma setPrefix_arrays [simp]: "arrays (Layer_setPrefix ptr s a p) = arrays s"
  by (simp add: Layer_setPrefix_def Let_def split: prod.splits)

lemma setPrefix_objects [simp]: "objects (Layer_setPrefix ptr s a p) = objects s"
  by (simp add: Layer_setPrefix_def Let_def split: prod.splits)

lemma setPrefix_other: "b \<noteq> a \<Longrightarrow> layers (Layer_setPrefix ptr s a p) ! b = layers s ! b"
  by (simp add: Layer_setPrefix_def Let_def split: prod.splits)

lemma setPrefix_methods [simp]:
  "l_methods (layers (Layer_setPrefix ptr s a p) ! b) = l_methods (layers s ! b)"
  by (cases "a < length (layers s)")
     (auto simp: Layer_setPrefix_def Let_def nth_list_update list_update_beyond split: prod.splits)

lemma setPrefix_stack [simp]:
  "l_stack (layers (Layer_setPrefix ptr s a p) ! b) = l_stack (layers s ! b)"
  by (cases "a < length (layers s)")
     (auto simp: Layer_setPrefix_def Let_def nth_list_update list_update_beyond split: prod.splits)

lemma setPrefix_name [simp]:
  "l_name (layers (Layer_setPrefix ptr s a p) ! b) = l_name (layers s ! b)"
  by (cases "a < length (layers s)")
     (auto simp: Layer_setPrefix_def Let_def nth_list_update list_update_beyond split: prod.splits)

lemma Layer_param_layers [simp]: "layers (Layer_param s a param fn) = layers s"
  by (simp add: Layer_param_def Let_def)

lemma Layer_param_objects [simp]: "objects (Layer_param s a param fn) = objects s"
  by (simp add: Layer_param_def Let_def)

lemma Layer_param_length [simp]: "length (arrays (Layer_param s a param fn)) = length (arrays s)"
  by (simp add: Layer_param_def Let_def)

lemma apply_params_fold_layers:
  "layers (fold (\<lambda>param st. case map_of (objects st ! pr) param of
        Some fn \<Rightarrow> Layer_param st a param fn | None \<Rightarrow> st) ks s) = layers s"
  by (induction ks arbitrary: s) (auto split: option.splits)

lemma apply_params_layers [simp]: "layers (apply_params s pr a) = layers s"
  by (simp add: apply_params_def apply_params_fold_layers)

lemma apply_params_fold_objects:
  "objects (fold (\<lambda>param st. case map_of (objects st ! pr) param of
        Some fn \<Rightarrow> Layer_param st a param fn | None \<Rightarrow> st) ks s) = objects s"
  by (induction ks arbitrary: s) (auto split: option.splits)

lemma apply_params_objects [simp]: "objects (apply_params s pr a) = objects s"
  by (simp add: apply_params_def apply_params_fold_objects)

lemma register_one_Inr:
  assumes "register_one ptr s r path ms mw opts = Inr (s', r')"
  shows "r_stack r' = r_stack r @ [length (layers s)]"
    and "length (layers s') = Suc (length (layers s))"
    and "b < length (layers s) \<Longrightarrow> layers s' ! b = layers s ! b"
    and "l_methods (layers s' ! length (layers s)) = layer_methods ms"
    and "objects s' = objects s"
    and "r_params r' = r_params r" and "r_opts r' = r_opts r"
proof -
  from assms obtain s1 a lopts where
    new: "Layer_new ptr s path ms mw lopts = Inr (s1, a)"
    and s': "s' = apply_params (case ro_prefix (r_opts r) of
                 Some p \<Rightarrow> if p \<noteq> [] then Layer_setPrefix ptr s1 a p else s1 | None \<Rightarrow> s1) (r_params r) a"
    and r': "r' = r\<lparr>r_stack := r_stack r @ [a]\<rparr>"
    by (auto simp: register_one_def Let_def split: sum.splits prod.splits)
  note n = Layer_new_Inr[OF new]
  show "r_stack r' = r_stack r @ [length (layers s)]" using r' n(1) by simp
  show "length (layers s') = Suc (length (layers s))"
    using s' n(2) by (auto split: option.splits)
  show "b < length (layers s) \<Longrightarrow> layers s' ! b = layers s ! b"
    using s' n(1,3) by (auto split: option.splits simp: setPrefix_other)
  show "l_methods (layers s' ! length (layers s)) = layer_methods ms"
    using s' n(4) by (auto split: option.splits)
  show "objects s' = objects s" using s' n(5) by (auto split: option.splits)
  show "r_params r' = r_params r" "r_opts r' = r_opts r" using r' by simp_all
qed

subsection \<open>Registration\<close>

lemma register_paths_Inr:
  assumes "register_paths ptr s r ps ms mw opts = Inr (s', r')"
  shows "r_stack r' = r_stack r @ [length (layers s) ..< length (layers s) + length ps]
       \<and> length (layers s') = length (layers s) + length ps
       \<and> (\<forall>b < length (layers s). layers s' ! b = layers s ! b)
       \<and> (\<forall>i < length ps. l_methods (layers s' ! (length (layers s) + i)) = layer_methods ms)"
  using assms
proof (induction ps arbitrary: s r)
  case Nil
  then show ?case by simp
next
  case (Cons p ps)
  from Cons.prems obtain s1 r1 where
    one: "register_one ptr s r p ms mw opts = Inr (s1, r1)"
    and rest: "register_paths ptr s1 r1 ps ms mw opts = Inr (s', r')"
    by (auto split: sum.splits)
  note o = register_one_Inr[OF one]
  note ih = Cons.IH[OF rest]
  have len: "length (layers s1) = Suc (length (layers s))" by (rule o(2))
  have "[length (layers s) ..< length (layers s) + length (p # ps)]
        = length (layers s) # [length (layers s1) ..< length (layers s1) + length ps]"
    using len by (simp add: upt_conv_Cons del: upt_Suc)
  then have stack: "r_stack r' = r_stack r @ [length (layers s) ..< length (layers s) + length (p # ps)]"
    using ih o(1) by simp
  have old: "\<forall>b < length (layers s). layers s' ! b = layers s ! b"
    using ih o(3) len by simp
  have new: "\<forall>i < length (p # ps). l_methods (layers s' ! (length (layers s) + i)) = layer_methods ms"
  proof (intro allI impI)
    fix i assume i: "i < length (p # ps)"
    show "l_methods (layers s' ! (length (layers s) + i)) = layer_methods ms"
    proof (cases i)
      case 0
      have "layers s' ! length (layers s) = layers s1 ! length (layers s)"
        using ih len by simp
      then show ?thesis using 0 o(4) by simp
    next
      case (Suc j)
      then have "j < length ps" using i by simp
      then have "l_methods (layers s' ! (length (layers s1) + j)) = layer_methods ms"
        using ih by blast
      then show ?thesis using Suc len by simp
    qed
  qed
  show ?case using stack old new ih len by (simp del: upt_Suc)
qed

lemma layer_methods_get:
  "(''GET'' \<in> set (layer_methods ms)) = (\<exists>m\<in>set ms. toUpperCase m = ''GET'')"
  by (force simp: layer_methods_set image_iff split: if_splits)

text \<open>
  C5. Every layer that \<open>register\<close> creates (one for a path, one per path for an array)
  has the method list the constructor builds from the given names, whatever their case;
  when that list holds \<open>GET\<close> it holds \<open>HEAD\<close> too, in the same layer, and it holds
  \<open>GET\<close> exactly when one of the given names upper-cases to \<open>GET\<close>.
\<close>

theorem register_widens_get_to_head:
  assumes "Router_register ptr s r path ms mw opts = Inr (s', r')"
  shows "\<exists>as. r_stack r' = r_stack r @ as
          \<and> length as = (case path of PathStr p \<Rightarrow> 1 | PathArr ps \<Rightarrow> length ps)
          \<and> (\<forall>a\<in>set as. l_methods (layers s' ! a) = layer_methods ms
                \<and> (''GET'' \<in> set (l_methods (layers s' ! a))
                     \<longrightarrow> ''HEAD'' \<in> set (l_methods (layers s' ! a))))
          \<and> (''GET'' \<in> set (layer_methods ms)) = (\<exists>m\<in>set ms. toUpperCase m = ''GET'')"
proof (cases path)
  case (PathStr p)
  then have one: "register_one ptr s r p ms mw opts = Inr (s', r')"
    using assms by (simp add: Router_register_def)
  note o = register_one_Inr[OF one]
  show ?thesis
    using o(1,4) PathStr layer_methods_head[of ms] layer_methods_get[of ms]
    by (intro exI[of _ "[length (layers s)]"]) simp
next
  case (PathArr ps)
  then have many: "register_paths ptr s r ps ms mw opts = Inr (s', r')"
    using assms by (simp add: Router_register_def)
  note m = register_paths_Inr[OF many]
  have "\<forall>a\<in>set [length (layers s) ..< length (layers s) + length ps].
          l_methods (layers s' ! a) = layer_methods ms"
  proof
    fix a assume "a \<in> set [length (layers s) ..< length (layers s) + length ps]"
    then obtain i where "a = length (layers s) + i" "i < length ps"
      by (auto simp: le_iff_add)
    then show "l_methods (layers s' ! a) = layer_methods ms" using m by blast
  qed
  then show ?thesis
    using m PathArr layer_methods_head[of ms] layer_methods_get[of ms]
    by (intro exI[of _ "[length (layers s) ..< length (layers s) + length ps]"]) simp
qed

lemma ex_register_get:
  "\<exists>s' r'. Router_register segment_ptr ex_store0 ex_router0 (PathStr ''/x'') [''get'']
      (MwSingle (Fn 0 None)) no_layer_opts = Inr (s', r')"
  by (simp add: Router_register_def register_one_def Layer_new_def ex_store0_def ex_router0_def
      Router_new_def empty_store_def no_router_opts_def no_layer_opts_def Let_def segment_ptr_def)

theorem register_widens_get_to_head_witness:
  "\<exists>s' r' a. Router_register segment_ptr ex_store0 ex_router0 (PathStr ''/x'') [''get'']
      (MwSingle (Fn 0 None)) no_layer_opts = Inr (s', r')
    \<and> r_stack r' = r_stack ex_router0 @ [a]
    \<and> l_methods (layers s' ! a) = [''HEAD'', ''GET'']"
proof -
  from ex_register_get obtain s' r' where
    run: "Router_register segment_ptr ex_store0 ex_router0 (PathStr ''/x'') [''get'']
      (MwSingle (Fn 0 None)) no_layer_opts = Inr (s', r')"
    by blast
  from register_widens_get_to_head[OF run] obtain as where
    as: "r_stack r' = r_stack ex_router0 @ as" "length as = 1"
      "\<forall>a\<in>set as. l_methods (layers s' ! a) = layer_methods [''get'']"
    by auto
  from as(2) obtain a where a: "as = [a]" by (cases as) auto
  have "layer_methods [''get''] = [''HEAD'', ''GET'']"
    by (simp add: layer_methods_def toUpperCase_def upper_char_def Let_def)
  then show ?thesis using run as a by auto
qed

subsection \<open>Parameter extraction\<close>

lemma params_put_other: "n \<noteq> k \<Longrightarrow> params_put n v ps k = ps k"
  by (simp add: params_put_def)

lemma params_loop_keep:
  "(\<forall>i. i < length names \<and> i < length caps \<and> names ! i = k
        \<longrightarrow> caps ! i = None \<or> caps ! i = Some [])
   \<Longrightarrow> params_loop names caps ps k = ps k"
proof (induction names caps ps rule: params_loop.induct)
  case (1 names ps)
  then show ?case by simp
next
  case (2 c cs ps)
  then show ?case by simp
next
  case (3 n names c cs ps)
  let ?ps' = "case c of None \<Rightarrow> ps
     | Some t \<Rightarrow> if t \<noteq> [] then params_put n (safeDecodeURIComponent t) ps else ps"
  have rest: "\<forall>i. i < length names \<and> i < length cs \<and> names ! i = k
        \<longrightarrow> cs ! i = None \<or> cs ! i = Some []"
  proof (intro allI impI)
    fix i assume "i < length names \<and> i < length cs \<and> names ! i = k"
    then have "Suc i < length (n # names) \<and> Suc i < length (c # cs) \<and> (n # names) ! Suc i = k"
      by simp
    with "3.prems" have "(c # cs) ! Suc i = None \<or> (c # cs) ! Suc i = Some []" by blast
    then show "cs ! i = None \<or> cs ! i = Some []" by simp
  qed
  have head: "?ps' k = ps k"
  proof (cases "n = k")
    case True
    with "3.prems"[rule_format, of 0] have "c = None \<or> c = Some []" by simp
    then show ?thesis by auto
  next
    case False
    then show ?thesis by (auto simp: params_put_other split: option.splits)
  qed
  have "params_loop (n # names) (c # cs) ps k = params_loop names cs ?ps' k" by simp
  also have "\<dots> = ?ps' k" by (rule "3.IH"[OF rest])
  finally show ?case using head by simp
qed

lemma params_loop_store:
  "i < length names \<Longrightarrow> i < length caps \<Longrightarrow> names ! i = k \<Longrightarrow> caps ! i = Some t \<Longrightarrow> t \<noteq> []
   \<Longrightarrow> k \<noteq> ''__proto__''
   \<Longrightarrow> (\<forall>j. i < j \<and> j < length names \<and> j < length caps \<and> names ! j = k
          \<longrightarrow> caps ! j = None \<or> caps ! j = Some [])
   \<Longrightarrow> params_loop names caps ps k = Some (safeDecodeURIComponent t)"
proof (induction names caps ps arbitrary: i rule: params_loop.induct)
  case (1 names ps)
  then show ?case by simp
next
  case (2 c cs ps)
  then show ?case by simp
next
  case (3 n names c cs ps)
  let ?ps' = "case c of None \<Rightarrow> ps
     | Some t \<Rightarrow> if t \<noteq> [] then params_put n (safeDecodeURIComponent t) ps else ps"
  have step: "params_loop (n # names) (c # cs) ps k = params_loop names cs ?ps' k" by simp
  show ?case
  proof (cases i)
    case 0
    with "3.prems" have c: "n = k" "c = Some t" by simp_all
    have later: "\<forall>j. j < length names \<and> j < length cs \<and> names ! j = k
          \<longrightarrow> cs ! j = None \<or> cs ! j = Some []"
    proof (intro allI impI)
      fix j assume "j < length names \<and> j < length cs \<and> names ! j = k"
      then have "i < Suc j \<and> Suc j < length (n # names) \<and> Suc j < length (c # cs)
          \<and> (n # names) ! Suc j = k"
        using 0 by simp
      with "3.prems"(7) have "(c # cs) ! Suc j = None \<or> (c # cs) ! Suc j = Some []" by blast
      then show "cs ! j = None \<or> cs ! j = Some []" by simp
    qed
    have "params_loop names cs ?ps' k = ?ps' k" by (rule params_loop_keep[OF later])
    also have "\<dots> = Some (safeDecodeURIComponent t)"
      using c "3.prems"(5,6) by (simp add: params_put_def)
    finally show ?thesis using step by simp
  next
    case (Suc j)
    have later: "\<forall>j'. j < j' \<and> j' < length names \<and> j' < length cs \<and> names ! j' = k
          \<longrightarrow> cs ! j' = None \<or> cs ! j' = Some []"
    proof (intro allI impI)
      fix j' assume "j < j' \<and> j' < length names \<and> j' < length cs \<and> names ! j' = k"
      then have "i < Suc j' \<and> Suc j' < length (n # names) \<and> Suc j' < length (c # cs)
          \<and> (n # names) ! Suc j' = k"
        using Suc by simp
      with "3.prems"(7) have "(c # cs) ! Suc j' = None \<or> (c # cs) ! Suc j' = Some []" by blast
      then show "cs ! j' = None \<or> cs ! j' = Some []" by simp
    qed
    have "params_loop names cs ?ps' k = Some (safeDecodeURIComponent t)"
      using "3.prems" Suc by (intro "3.IH"[of j]) (simp_all add: later)
    then show ?thesis using step by simp
  qed
qed

lemma bind_layer_matched:
  "l_regexp l path \<noteq> None \<Longrightarrow> \<exists>c'. bind_layer l path c = Inr c'"
  by (auto simp: bind_layer_def Layer_captures_def)

text \<open>
  C9. When every capture for the parameter \<open>k\<close> is missing or empty, extraction leaves
  the entry of \<open>k\<close> as it was: not added when absent, not overwritten when present. So
  the step that binds a later matched layer keeps the value an earlier layer stored.
\<close>

theorem missing_capture_keeps_param:
  assumes "\<forall>i. i < length (l_paramNames l) \<and> i < length caps \<and> l_paramNames l ! i = k
        \<longrightarrow> caps ! i = None \<or> caps ! i = Some []"
  shows "Layer_params l path caps None k = None
       \<and> Layer_params l path caps (Some ps) k = ps k
       \<and> (Layer_captures l path = Inr caps \<longrightarrow>
            (\<exists>c'. bind_layer l path (c\<lparr>c_params := Some ps\<rparr>) = Inr c'
                 \<and> (\<exists>ps'. c_params c' = Some ps' \<and> ps' k = ps k)))"
  using params_loop_keep[OF assms]
  by (simp add: Layer_params_def bind_layer_def)

text \<open>
  C7. A non-empty capture is stored decoded when \<open>decodeURIComponent\<close> succeeds and as
  the raw captured text when it fails; extraction itself is a total function, and the
  step that binds a layer to a path it matches never fails.
\<close>

theorem malformed_escape_kept_raw:
  assumes "i < length (l_paramNames l)" and "i < length caps"
    and "l_paramNames l ! i = k" and "caps ! i = Some t" and "t \<noteq> []"
    and "k \<noteq> ''__proto__''"
    and "\<forall>j. i < j \<and> j < length (l_paramNames l) \<and> j < length caps \<and> l_paramNames l ! j = k
          \<longrightarrow> caps ! j = None \<or> caps ! j = Some []"
  shows "Layer_params l path caps existing k
           = Some (case decodeURIComponent t of Some d \<Rightarrow> d | None \<Rightarrow> t)
       \<and> (decodeURIComponent t = None \<longrightarrow> Layer_params l path caps existing k = Some t)
       \<and> (l_regexp l path \<noteq> None \<longrightarrow> (\<exists>c'. bind_layer l path c = Inr c'))"
  using params_loop_store[OF assms, of "case existing of Some ps \<Rightarrow> ps | None \<Rightarrow> Map.empty"]
    bind_layer_matched[of l path c]
  by (auto simp: Layer_params_def safeDecodeURIComponent_def)

lemmas registry_defs =
  Router_verb_def Router_register_def register_one_def Layer_new_def apply_params_def
  Layer_setPrefix_def Layer_param_def param_splice_def Router_param_def Router_new_def
  ex_store0_def ex_router0_def empty_store_def no_router_opts_def no_layer_opts_def
  or_else_def obj_keys_def obj_set_def segment_ptr_def Let_def

lemma ex_users_eq:
  "ex_users =
     (\<lparr>layers = [\<lparr>l_opts = no_layer_opts, l_name = None, l_methods = [''HEAD'', ''GET''],
                   l_paramNames = [''id''], l_stack = 0, l_path = ''/users/:id'',
                   l_regexp = segment_exec no_layer_opts [Lit ''users'', Param ''id'']\<rparr>],
       arrays = [[Fn 1 None]], objects = [[]]\<rparr>,
      \<lparr>r_opts = no_router_opts, r_methods = default_methods, r_params = 0, r_stack = [0]\<rparr>)"
  by (simp add: ex_users_def registry_defs truthy_str_def layer_methods_def toUpperCase_def
      upper_char_def tokens_of_def)

lemma decode_41: "decodeURIComponent ''%41'' = Some ''A''"
  by code_simp

lemma decode_pct: "decodeURIComponent ''%'' = None"
  by code_simp

lemmas serving_defs =
  dispatch_def Router_match_def Layer_match_def segment_exec_def koa_compose_def layer_chain_def
  bind_layer_def Layer_captures_def Layer_params_def safeDecodeURIComponent_def run_mw_def
  trace_world_def request_def or_str_def params_put_def truthy_str_def no_router_opts_def
  no_layer_opts_def toUpperCase_def upper_char_def params_get_def object_prototype_names_def
  Let_def

lemma ex_users_dispatch_decoded:
  "\<exists>c'. dispatch trace_world (fst ex_users) (snd ex_users) (request ''GET'' ''/users/%41'') Inr = Inr c'
      \<and> (\<exists>ps. c_params c' = Some ps \<and> ps ''id'' = Some ''A'')
      \<and> c_state c' = [Called (Fn 1 None)]"
  by (simp add: ex_users_eq serving_defs decode_41)

lemma ex_users_dispatch_raw:
  "\<exists>c'. dispatch trace_world (fst ex_users) (snd ex_users) (request ''GET'' ''/users/%'') Inr = Inr c'
      \<and> (\<exists>ps. c_params c' = Some ps \<and> ps ''id'' = Some ''%'')"
  by (simp add: ex_users_eq serving_defs decode_pct)

theorem malformed_escape_kept_raw_witness:
  "Layer_params (layers (fst ex_users) ! 0) ''/users/%41'' [Some ''%41''] None ''id'' = Some ''A''
   \<and> Layer_params (layers (fst ex_users) ! 0) ''/users/%'' [Some ''%''] None ''id'' = Some ''%''
   \<and> (\<exists>c'. bind_layer (layers (fst ex_users) ! 0) ''/users/%'' (request ''GET'' ''/users/%'') = Inr c')"
proof -
  let ?l = "layers (fst ex_users) ! 0"
  have names: "l_paramNames ?l = [''id'']" by (simp add: ex_users_eq)
  have m: "l_regexp ?l ''/users/%'' \<noteq> None"
    by (simp add: ex_users_eq segment_exec_def no_layer_opts_def toUpperCase_def upper_char_def)
  have later: "\<forall>j. 0 < j \<and> j < length (l_paramNames ?l) \<and> j < length [Some t] \<and> l_paramNames ?l ! j = ''id''
          \<longrightarrow> [Some t] ! j = None \<or> [Some t] ! j = Some []" for t :: string
    by (simp add: names)
  have a: "Layer_params ?l ''/users/%41'' [Some ''%41''] None ''id''
      = Some (case decodeURIComponent ''%41'' of Some d \<Rightarrow> d | None \<Rightarrow> ''%41'')"
    using malformed_escape_kept_raw[where i = 0 and l = ?l and caps = "[Some ''%41'']"
        and k = "''id''" and t = "''%41''" and path = "''/users/%41''" and existing = None
        and c = "request ''GET'' ''/users/%41''",
        OF _ _ _ _ _ _ later]
    by (simp add: names)
  have b: "Layer_params ?l ''/users/%'' [Some ''%''] None ''id'' = Some ''%''
      \<and> (\<exists>c'. bind_layer ?l ''/users/%'' (request ''GET'' ''/users/%'') = Inr c')"
    using malformed_escape_kept_raw[where i = 0 and l = ?l and caps = "[Some ''%'']"
        and k = "''id''" and t = "''%''" and path = "''/users/%''" and existing = None
        and c = "request ''GET'' ''/users/%''", OF _ _ _ _ _ _ later] m
    by (simp add: names decode_pct)
  show ?thesis using a b by (simp add: decode_41)
qed

theorem missing_capture_keeps_param_witness:
  "Layer_params ex_optional ''/users/7'' [Some ''7'', None] None ''format'' = None
   \<and> Layer_params ex_optional ''/users/7'' [Some ''7'', None] (Some [''format'' \<mapsto> ''json'']) ''format''
       = Some ''json''
   \<and> (\<exists>c'. bind_layer ex_optional ''/users/7''
               ((request ''GET'' ''/users/7'')\<lparr>c_params := Some [''format'' \<mapsto> ''json'']\<rparr>) = Inr c'
          \<and> (\<exists>ps'. c_params c' = Some ps' \<and> ps' ''format'' = Some ''json''))"
proof -
  have caps: "Layer_captures ex_optional ''/users/7'' = Inr [Some ''7'', None]"
    by (simp add: Layer_captures_def ex_optional_def no_layer_opts_def)
  have hyp: "\<forall>i. i < length (l_paramNames ex_optional) \<and> i < length [Some ''7'', None]
        \<and> l_paramNames ex_optional ! i = ''format''
      \<longrightarrow> [Some ''7'', None] ! i = None \<or> [Some ''7'', None] ! i = Some []"
    by (auto simp: ex_optional_def less_Suc_eq)
  show ?thesis
    using missing_capture_keeps_param[OF hyp, of "''/users/7''" "[''format'' \<mapsto> ''json'']"
        "request ''GET'' ''/users/7''"] caps
    by simp
qed

subsection \<open>Matching\<close>

lemma indexOf_mem: "(indexOf xs x \<noteq> - 1) = (x \<in> set xs)"
proof (induction xs)
  case Nil
  then show ?case by simp
next
  case (Cons y ys)
  have "- 1 \<le> indexOf ys x" by (rule indexOf_ge)
  then show ?case using Cons by (auto simp: Let_def)
qed

lemma match_loop_eq:
  "match_loop s path method as m =
     m\<lparr>m_path := m_path m @ filter (\<lambda>a. Layer_match (layers s ! a) path) as,
       m_pathAndMethod := m_pathAndMethod m
          @ filter (\<lambda>a. Layer_match (layers s ! a) path
                \<and> (l_methods (layers s ! a) = [] \<or> method \<in> set (l_methods (layers s ! a)))) as,
       m_route := (m_route m \<or> (\<exists>a\<in>set as. Layer_match (layers s ! a) path
                \<and> method \<in> set (l_methods (layers s ! a))))\<rparr>"
proof (induction as arbitrary: m)
  case Nil
  then show ?case by simp
next
  case (Cons a as)
  show ?case
    unfolding match_loop.simps Let_def Cons.IH
    by (auto simp: indexOf_mem)
qed

lemma Router_match_path:
  "m_path (Router_match s r path method) = filter (\<lambda>a. Layer_match (layers s ! a) path) (r_stack r)"
  by (simp add: Router_match_def match_loop_eq)

lemma Router_match_pathAndMethod:
  "m_pathAndMethod (Router_match s r path method)
     = filter (\<lambda>a. Layer_match (layers s ! a) path
          \<and> (l_methods (layers s ! a) = [] \<or> method \<in> set (l_methods (layers s ! a)))) (r_stack r)"
  by (simp add: Router_match_def match_loop_eq)

lemma Router_match_route:
  "m_route (Router_match s r path method)
     = (\<exists>a\<in>set (r_stack r). Layer_match (layers s ! a) path \<and> method \<in> set (l_methods (layers s ! a)))"
  by (simp add: Router_match_def match_loop_eq)

text \<open>
  C6. \<open>match\<close> sets the flag \<open>route\<close> exactly when a layer that matches the path and the
  method has a method list that is not empty; the layers that match path and method are
  those of the stack, in order, that match the path and have no methods or list the
  method. When the flag is false \<open>dispatch\<close> returns what \<open>next\<close> returns on the context,
  in which only \<open>matched\<close> and \<open>router\<close> were written: no layer's middleware runs and the
  dispatcher raises nothing.
\<close>

theorem route_flag_iff_endpoint:
  "m_route (Router_match s r path method)
     = (\<exists>a\<in>set (m_pathAndMethod (Router_match s r path method)). l_methods (layers s ! a) \<noteq> [])
   \<and> m_pathAndMethod (Router_match s r path method)
     = filter (\<lambda>a. Layer_match (layers s ! a) path
          \<and> (l_methods (layers s ! a) = [] \<or> method \<in> set (l_methods (layers s ! a)))) (r_stack r)
   \<and> (\<not> m_route (Router_match s r
            (or_str (ro_routerPath (r_opts r)) (or_str (c_routerPath c) (c_path c))) (c_method c))
      \<longrightarrow> dispatch w s r c next
          = next (c\<lparr>c_matched := Some ((case c_matched c of Some ms \<Rightarrow> ms | None \<Rightarrow> [])
                      @ m_path (Router_match s r
                          (or_str (ro_routerPath (r_opts r)) (or_str (c_routerPath c) (c_path c)))
                          (c_method c))),
                   c_router := Some r\<rparr>))"
proof -
  have "dispatch w s r c next
          = next (c\<lparr>c_matched := Some ((case c_matched c of Some ms \<Rightarrow> ms | None \<Rightarrow> [])
                      @ m_path (Router_match s r
                          (or_str (ro_routerPath (r_opts r)) (or_str (c_routerPath c) (c_path c)))
                          (c_method c))),
                   c_router := Some r\<rparr>)"
    if "\<not> m_route (Router_match s r
            (or_str (ro_routerPath (r_opts r)) (or_str (c_routerPath c) (c_path c))) (c_method c))"
    using that by (cases "c_matched c") (simp_all add: dispatch_def Let_def)
  moreover have "m_route (Router_match s r path method)
     = (\<exists>a\<in>set (m_pathAndMethod (Router_match s r path method)). l_methods (layers s ! a) \<noteq> [])"
    unfolding Router_match_route Router_match_pathAndMethod by auto
  ultimately show ?thesis using Router_match_pathAndMethod by blast
qed

lemma ex_mounted_only_eq:
  "ex_mounted_only =
     (\<lparr>layers = [\<lparr>l_opts = no_layer_opts\<lparr>o_end := False\<rparr>, l_name = None, l_methods = [],
                   l_paramNames = [], l_stack = 0, l_path = ''/x'',
                   l_regexp = segment_exec (no_layer_opts\<lparr>o_end := False\<rparr>) [Lit ''x'']\<rparr>],
       arrays = [[Fn 2 None]], objects = [[]]\<rparr>,
      \<lparr>r_opts = no_router_opts, r_methods = default_methods, r_params = 0, r_stack = [0]\<rparr>)"
  by (simp add: ex_mounted_only_def Router_use_def use_one_def registry_defs truthy_str_def
      layer_methods_def tokens_of_def)

theorem route_flag_iff_endpoint_witness:
  "m_pathAndMethod (Router_match (fst ex_mounted_only) (snd ex_mounted_only) ''/x/y'' ''GET'') = [0]
   \<and> \<not> m_route (Router_match (fst ex_mounted_only) (snd ex_mounted_only) ''/x/y'' ''GET'')
   \<and> dispatch trace_world (fst ex_mounted_only) (snd ex_mounted_only) (request ''GET'' ''/x/y'') Inr
       = Inr ((request ''GET'' ''/x/y'')\<lparr>c_matched := Some [0], c_router := Some (snd ex_mounted_only)\<rparr>)"
proof -
  let ?s = "fst ex_mounted_only" and ?r = "snd ex_mounted_only"
  have m: "Layer_match (layers ?s ! 0) ''/x/y''"
    by (simp add: ex_mounted_only_eq Layer_match_def segment_exec_def no_layer_opts_def
        toUpperCase_def upper_char_def)
  have facts: "r_stack ?r = [0]" "l_methods (layers ?s ! 0) = []" "ro_routerPath (r_opts ?r) = None"
    by (simp_all add: ex_mounted_only_eq no_router_opts_def)
  have req: "c_routerPath (request ''GET'' ''/x/y'') = None" "c_path (request ''GET'' ''/x/y'') = ''/x/y''"
    "c_method (request ''GET'' ''/x/y'') = ''GET''" "c_matched (request ''GET'' ''/x/y'') = None"
    by (simp_all add: request_def)
  show ?thesis
    using route_flag_iff_endpoint[of ?s ?r "''/x/y''" "''GET''" "request ''GET'' ''/x/y''"
        trace_world Inr] m facts
    by (simp add: req or_str_def Router_match_path)
qed

subsection \<open>Named routes\<close>

lemma Router_route_first:
  assumes "i < length (r_stack r)"
    and "l_name (layers s ! (r_stack r ! i)) = Some name" and "name \<noteq> []"
    and "\<forall>j<i. l_name (layers s ! (r_stack r ! j)) \<noteq> Some name"
  shows "Router_route s r name = Some (r_stack r ! i)"
  unfolding Router_route_def find_Some_iff
  using assms by (intro exI[of _ i]) (simp add: truthy_str_def)

lemma Router_route_none:
  assumes "\<forall>a\<in>set (r_stack r). l_name (layers s ! a) \<noteq> Some name"
  shows "Router_route s r name = None"
  unfolding Router_route_def find_None_iff using assms by auto

text \<open>
  C8. \<open>url\<close> is a function of the registry that returns a value and writes nothing. For
  a name that no layer of the stack has, the value is the \<open>Error\<close> object, returned and
  not thrown. For a name that a layer has, the first such layer in registration order
  is the one whose \<open>url\<close> builds the result.
\<close>

theorem unknown_route_name_is_error_value:
  "((\<forall>a\<in>set (r_stack r). l_name (layers s ! a) \<noteq> Some name)
      \<longrightarrow> Router_route s r name = None
        \<and> Router_url lib s r name args = Inr (ErrorValue (''No route found for name: '' @ name)))
   \<and> (i < length (r_stack r) \<and> l_name (layers s ! (r_stack r ! i)) = Some name \<and> name \<noteq> []
        \<and> (\<forall>j<i. l_name (layers s ! (r_stack r ! j)) \<noteq> Some name)
      \<longrightarrow> Router_route s r name = Some (r_stack r ! i)
        \<and> Router_url lib s r name args
            = (case Layer_url lib (layers s ! (r_stack r ! i)) args of
                 Inl e \<Rightarrow> Inl e
               | Inr u \<Rightarrow> Inr (UrlString u)))"
  using Router_route_first[of i r s name] Router_route_none[of r s name]
  by (auto simp: Router_url_def)

lemma ex_named_eq:
  "ex_named =
     (\<lparr>layers = [\<lparr>l_opts = no_layer_opts\<lparr>o_name := Some ''user''\<rparr>, l_name = Some ''user'',
                   l_methods = [''HEAD'', ''GET''],
                   l_paramNames = [''id''], l_stack = 0, l_path = ''/users/:id'',
                   l_regexp = segment_exec (no_layer_opts\<lparr>o_name := Some ''user''\<rparr>)
                                [Lit ''users'', Param ''id'']\<rparr>,
                 \<lparr>l_opts = no_layer_opts\<lparr>o_name := Some ''user''\<rparr>, l_name = Some ''user'',
                   l_methods = [''HEAD'', ''GET''],
                   l_paramNames = [''id''], l_stack = 1, l_path = ''/u/:id'',
                   l_regexp = segment_exec (no_layer_opts\<lparr>o_name := Some ''user''\<rparr>)
                                [Lit ''u'', Param ''id'']\<rparr>],
       arrays = [[Fn 1 None], [Fn 2 None]], objects = [[]]\<rparr>,
      \<lparr>r_opts = no_router_opts, r_methods = default_methods, r_params = 0, r_stack = [0, 1]\<rparr>)"
  by (simp add: ex_named_def registry_defs truthy_str_def layer_methods_def toUpperCase_def
      upper_char_def tokens_of_def)

theorem unknown_route_name_is_error_value_witness:
  "Router_url ex_lib (fst ex_named) (snd ex_named) ''nope'' [JObject [(''id'', JString ''3'')]]
     = Inr (ErrorValue ''No route found for name: nope'')
   \<and> Router_route (fst ex_named) (snd ex_named) ''user'' = Some 0
   \<and> Router_url ex_lib (fst ex_named) (snd ex_named) ''user'' [JObject [(''id'', JString ''3'')]]
     = Inr (UrlString ''/users/3'')"
proof -
  let ?s = "fst ex_named" and ?r = "snd ex_named"
  have names: "r_stack ?r = [0, 1]" "l_name (layers ?s ! 0) = Some ''user''"
    "l_name (layers ?s ! Suc 0) = Some ''user''"
    by (simp_all add: ex_named_eq)
  have url: "Layer_url ex_lib (layers ?s ! 0) [JObject [(''id'', JString ''3'')]] = Inr ''/users/3''"
    by (simp add: ex_named_eq Layer_url_def ex_lib_def tokens_of_def List.map_filter_def Let_def)
  have a: "Router_url ex_lib ?s ?r ''nope'' [JObject [(''id'', JString ''3'')]]
     = Inr (ErrorValue ''No route found for name: nope'')"
    using unknown_route_name_is_error_value[of ?r ?s "''nope''" ex_lib
        "[JObject [(''id'', JString ''3'')]]" 0]
    by (simp add: names)
  have b: "Router_route ?s ?r ''user'' = Some 0
     \<and> Router_url ex_lib ?s ?r ''user'' [JObject [(''id'', JString ''3'')]] = Inr (UrlString ''/users/3'')"
    using unknown_route_name_is_error_value[of ?r ?s "''user''" ex_lib
        "[JObject [(''id'', JString ''3'')]]" 0]
    by (simp add: names url)
  show ?thesis using a b by simp
qed

subsection \<open>The Methods Guard\<close>

lemma method_name_not_index: "method_name m \<Longrightarrow> \<not> is_array_index m"
  by (cases m) (auto simp: method_name_def is_array_index_def is_digit_def)

lemma method_name_not_proto: "method_name m \<Longrightarrow> m \<noteq> ''__proto__''"
  by (auto simp: method_name_def)

lemma method_name_not_inherited: "method_name m \<Longrightarrow> m \<notin> set object_prototype_names"
  by (auto simp: method_name_def object_prototype_names_def)

lemma set_first_seen [simp]: "set (first_seen xs) = set xs"
  by (induction xs) auto

lemma filter_removeAll_in:
  "x \<in> A \<Longrightarrow> filter (\<lambda>y. y \<notin> A) (removeAll x ys) = filter (\<lambda>y. y \<notin> A) ys"
  by (induction ys) auto

lemma filter_removeAll_out:
  "filter (\<lambda>y. y \<notin> insert x A) ys = filter (\<lambda>y. y \<notin> A) (removeAll x ys)"
  by (induction ys) auto

lemma fold_add_first_seen:
  "fold (\<lambda>k acc. if k \<in> set acc then acc else acc @ [k]) xs acc
     = acc @ filter (\<lambda>x. x \<notin> set acc) (first_seen xs)"
proof (induction xs arbitrary: acc)
  case Nil
  then show ?case by simp
next
  case (Cons x xs)
  show ?case
  proof (cases "x \<in> set acc")
    case True
    then show ?thesis using Cons.IH[of acc] by (simp add: filter_removeAll_in)
  next
    case False
    then show ?thesis
      using Cons.IH[of "acc @ [x]"] filter_removeAll_out[of x "set acc" "first_seen xs"] by simp
  qed
qed

lemma obj_set_dup:
  "k \<noteq> ''__proto__'' \<Longrightarrow>
   obj_set k k (map (\<lambda>x. (x, x)) acc) = map (\<lambda>x. (x, x)) (if k \<in> set acc then acc else acc @ [k])"
  by (auto simp: obj_set_def comp_def)

lemma fold_obj_set_dup:
  "\<forall>k\<in>set xs. k \<noteq> ''__proto__'' \<Longrightarrow>
   fold (\<lambda>m ob. obj_set m m ob) xs (map (\<lambda>x. (x, x)) acc)
     = map (\<lambda>x. (x, x)) (fold (\<lambda>k acc. if k \<in> set acc then acc else acc @ [k]) xs acc)"
proof (induction xs arbitrary: acc)
  case Nil
  then show ?case by simp
next
  case (Cons x xs)
  then have x: "x \<noteq> ''__proto__''" and xs: "\<forall>k\<in>set xs. k \<noteq> ''__proto__''" by simp_all
  show ?case
    unfolding fold_Cons comp_def obj_set_dup[OF x]
    by (rule Cons.IH[OF xs])
qed

lemma fold_fold_concat:
  "fold (\<lambda>a ob. fold f (g a) ob) as ob = fold f (concat (map g as)) ob"
  by (induction as arbitrary: ob) simp_all

lemma allowed_of_eq:
  assumes "\<forall>a\<in>set ms. list_all method_name (l_methods (layers s ! a))"
  shows "allowed_of s ms = map (\<lambda>x. (x, x)) (first_seen (matched_methods s ms))"
proof -
  have np: "\<forall>k\<in>set (matched_methods s ms). k \<noteq> ''__proto__''"
    using assms by (auto simp: matched_methods_def list_all_iff method_name_not_proto)
  have "allowed_of s ms = fold (\<lambda>m ob. obj_set m m ob) (matched_methods s ms) (map (\<lambda>x. (x, x)) [])"
    by (simp add: allowed_of_def matched_methods_def fold_fold_concat)
  also have "\<dots> = map (\<lambda>x. (x, x)) (fold (\<lambda>k acc. if k \<in> set acc then acc else acc @ [k])
      (matched_methods s ms) [])"
    by (rule fold_obj_set_dup[OF np])
  finally show ?thesis by (simp add: fold_add_first_seen)
qed

lemma obj_keys_plain:
  "\<forall>k\<in>set (map fst ob). \<not> is_array_index k \<Longrightarrow> obj_keys ob = map fst ob"
  by (simp add: obj_keys_def filter_empty_conv[THEN iffD2] filter_id_conv[THEN iffD2])

lemma allowed_keys:
  assumes "\<forall>a\<in>set ms. list_all method_name (l_methods (layers s ! a))"
  shows "obj_keys (allowed_of s ms) = first_seen (matched_methods s ms)"
proof -
  have "\<forall>k\<in>set (matched_methods s ms). \<not> is_array_index k"
    using assms by (auto simp: matched_methods_def list_all_iff method_name_not_index)
  then show ?thesis
    by (simp add: allowed_of_eq[OF assms] obj_keys_plain comp_def)
qed

lemma map_of_dup: "map_of (map (\<lambda>x. (x, x)) ks) m = (if m \<in> set ks then Some m else None)"
  by (induction ks) auto

lemma allowed_truthy:
  assumes "\<forall>a\<in>set ms. list_all method_name (l_methods (layers s ! a))" and "method_name m"
  shows "obj_truthy (allowed_of s ms) m = (m \<in> set (matched_methods s ms))"
  using assms(2) method_name_not_inherited[OF assms(2)]
  by (auto simp: obj_truthy_def allowed_of_eq[OF assms(1)] map_of_dup method_name_def)

text \<open>
  C1 (amended). The Methods Guard runs \<open>next\<close> first and inspects the context it
  resolves with. With a status that is set and is neither 0 nor 404 nothing changes.
  Otherwise, with an accumulator \<open>ms\<close>, method names that are upper-case tokens and
  \<open>throw\<close> off, the union is the list of the methods of the accumulated layers with
  duplicates removed at their first place, the header \<open>Allow\<close> is written with that list
  joined by a comma and a space, and the four cases exclude each other:
  \<^item> the method is not implemented: status 501 and \<open>Allow\<close>, also with an empty union;
  \<^item> implemented, the union not empty, the method \<open>OPTIONS\<close>: status 200, an empty
    body and \<open>Allow\<close>;
  \<^item> implemented, the union not empty and without the method, which is not
    \<open>OPTIONS\<close>: status 405 and \<open>Allow\<close>;
  \<^item> implemented, and the union empty or holding the method, which is not
    \<open>OPTIONS\<close>: no change.
\<close>

theorem methods_guard_decision_table:
  assumes "next c = Inr c'"
  shows "(c_status c' = Some n \<and> n \<noteq> 0 \<and> n \<noteq> 404
            \<longrightarrow> Router_allowedMethods options r s c next = Inr c')
       \<and> ((c_status c' = None \<or> c_status c' = Some 0 \<or> c_status c' = Some 404)
            \<and> c_matched c' = Some ms
            \<and> (\<forall>a\<in>set ms. list_all method_name (l_methods (layers s ! a)))
            \<and> method_name (c_method c') \<and> \<not> am_throw options
            \<longrightarrow> (let union = first_seen (matched_methods s ms);
                     allow = (c_headers c')(''Allow'' \<mapsto> join '', '' union);
                     implemented = (c_method c' \<in> set (r_methods r));
                     result = Router_allowedMethods options r s c next
                 in (\<not> implemented
                       \<longrightarrow> result = Inr (c'\<lparr>c_status := Some 501, c_headers := allow\<rparr>))
                  \<and> (implemented \<and> union \<noteq> [] \<and> c_method c' = ''OPTIONS''
                       \<longrightarrow> result = Inr (c'\<lparr>c_status := Some 200, c_body := Some [],
                                               c_headers := allow\<rparr>))
                  \<and> (implemented \<and> union \<noteq> [] \<and> c_method c' \<noteq> ''OPTIONS''
                        \<and> c_method c' \<notin> set union
                       \<longrightarrow> result = Inr (c'\<lparr>c_status := Some 405, c_headers := allow\<rparr>))
                  \<and> (implemented
                        \<and> (union = [] \<or> (c_method c' \<in> set union \<and> c_method c' \<noteq> ''OPTIONS''))
                       \<longrightarrow> result = Inr c')))"
proof (intro conjI impI)
  assume "c_status c' = Some n \<and> n \<noteq> 0 \<and> n \<noteq> 404"
  then show "Router_allowedMethods options r s c next = Inr c'"
    using assms by (simp add: Router_allowedMethods_def after_next_def)
next
  assume h: "(c_status c' = None \<or> c_status c' = Some 0 \<or> c_status c' = Some 404)
            \<and> c_matched c' = Some ms
            \<and> (\<forall>a\<in>set ms. list_all method_name (l_methods (layers s ! a)))
            \<and> method_name (c_method c') \<and> \<not> am_throw options"
  then have wf: "\<forall>a\<in>set ms. list_all method_name (l_methods (layers s ! a))" by blast
  from h have mn: "method_name (c_method c')" by blast
  have keys: "obj_keys (allowed_of s ms) = first_seen (matched_methods s ms)"
    by (rule allowed_keys[OF wf])
  have truthy: "obj_truthy (allowed_of s ms) (c_method c') = (c_method c' \<in> set (matched_methods s ms))"
    by (rule allowed_truthy[OF wf mn])
  have impl: "(indexOf (r_methods r) (c_method c') = - 1) = (c_method c' \<notin> set (r_methods r))"
    using indexOf_mem[of "r_methods r" "c_method c'"] by blast
  from h have st: "c_status c' = None \<or> c_status c' = Some 0 \<or> c_status c' = Some 404"
    and ma: "c_matched c' = Some ms" and nt: "\<not> am_throw options"
    by blast+
  have run: "Router_allowedMethods options r s c next = after_next options (r_methods r) s c'"
    using assms by (simp add: Router_allowedMethods_def)
  have "after_next options (r_methods r) s c' =
      (if c_method c' \<notin> set (r_methods r) then
         Inr (set_header ''Allow'' (join '', '' (first_seen (matched_methods s ms))) (c'\<lparr>c_status := Some 501\<rparr>))
       else if first_seen (matched_methods s ms) \<noteq> [] then
         (if c_method c' = ''OPTIONS'' then
            Inr (set_header ''Allow'' (join '', '' (first_seen (matched_methods s ms)))
                   (c'\<lparr>c_status := Some 200, c_body := Some []\<rparr>))
          else if c_method c' \<notin> set (matched_methods s ms) then
            Inr (set_header ''Allow'' (join '', '' (first_seen (matched_methods s ms)))
                   (c'\<lparr>c_status := Some 405\<rparr>))
          else Inr c')
       else Inr c')"
    unfolding after_next_def Let_def
    by (simp only: st ma nt if_True if_False option.case simp_thms keys truthy impl)
  then have eq: "Router_allowedMethods options r s c next =
      (if c_method c' \<notin> set (r_methods r) then
         Inr (c'\<lparr>c_status := Some 501,
                 c_headers := (c_headers c')(''Allow'' \<mapsto> join '', '' (first_seen (matched_methods s ms)))\<rparr>)
       else if first_seen (matched_methods s ms) \<noteq> [] then
         (if c_method c' = ''OPTIONS'' then
            Inr (c'\<lparr>c_status := Some 200, c_body := Some [],
                    c_headers := (c_headers c')(''Allow'' \<mapsto> join '', '' (first_seen (matched_methods s ms)))\<rparr>)
          else if c_method c' \<notin> set (matched_methods s ms) then
            Inr (c'\<lparr>c_status := Some 405,
                    c_headers := (c_headers c')(''Allow'' \<mapsto> join '', '' (first_seen (matched_methods s ms)))\<rparr>)
          else Inr c')
       else Inr c')"
    unfolding run by (simp add: set_header_def)
  show "let union = first_seen (matched_methods s ms);
            allow = (c_headers c')(''Allow'' \<mapsto> join '', '' union);
            implemented = (c_method c' \<in> set (r_methods r));
            result = Router_allowedMethods options r s c next
        in (\<not> implemented
              \<longrightarrow> result = Inr (c'\<lparr>c_status := Some 501, c_headers := allow\<rparr>))
         \<and> (implemented \<and> union \<noteq> [] \<and> c_method c' = ''OPTIONS''
              \<longrightarrow> result = Inr (c'\<lparr>c_status := Some 200, c_body := Some [],
                                      c_headers := allow\<rparr>))
         \<and> (implemented \<and> union \<noteq> [] \<and> c_method c' \<noteq> ''OPTIONS''
               \<and> c_method c' \<notin> set union
              \<longrightarrow> result = Inr (c'\<lparr>c_status := Some 405, c_headers := allow\<rparr>))
         \<and> (implemented
               \<and> (union = [] \<or> (c_method c' \<in> set union \<and> c_method c' \<noteq> ''OPTIONS''))
              \<longrightarrow> result = Inr c')"
    unfolding eq Let_def set_first_seen
    by (cases "first_seen (matched_methods s ms) = []") auto
qed

lemma ex_get_post_eq:
  "ex_get_post =
     (\<lparr>layers = [\<lparr>l_opts = no_layer_opts, l_name = None, l_methods = [''HEAD'', ''GET''],
                   l_paramNames = [], l_stack = 0, l_path = ''/x'',
                   l_regexp = segment_exec no_layer_opts [Lit ''x'']\<rparr>,
                 \<lparr>l_opts = no_layer_opts, l_name = None, l_methods = [''POST''],
                   l_paramNames = [], l_stack = 1, l_path = ''/x'',
                   l_regexp = segment_exec no_layer_opts [Lit ''x'']\<rparr>],
       arrays = [[Fn 1 None], [Fn 2 None]], objects = [[]]\<rparr>,
      \<lparr>r_opts = no_router_opts, r_methods = default_methods, r_params = 0, r_stack = [0, 1]\<rparr>)"
  by (simp add: ex_get_post_def registry_defs truthy_str_def layer_methods_def toUpperCase_def
      upper_char_def tokens_of_def)

lemma ex_get_post_put_dispatch:
  "dispatch trace_world (fst ex_get_post) (snd ex_get_post) (request ''PUT'' ''/x'') next
     = next ((request ''PUT'' ''/x'')\<lparr>c_matched := Some [0, 1], c_router := Some (snd ex_get_post)\<rparr>)"
  by (simp add: ex_get_post_eq serving_defs)

lemma ex_get_post_purge_dispatch:
  "dispatch trace_world (fst ex_get_post) (snd ex_get_post) (request ''PURGE'' ''/y'') next
     = next ((request ''PURGE'' ''/y'')\<lparr>c_matched := Some [], c_router := Some (snd ex_get_post)\<rparr>)"
  by (simp add: ex_get_post_eq serving_defs)

text \<open>
  C1, as stated, fails. The routes \<open>get('/x', h1)\<close> and \<open>post('/x', h2)\<close> and the request
  \<open>PURGE /y\<close>, a method the router does not implement on a path no layer matches: the
  accumulator and with it the union are empty, the case for which the claim says that
  nothing changes, and the status goes from 404 to 501 with an empty \<open>Allow\<close> header.
\<close>

theorem unimplemented_method_with_empty_union:
  "c_status (request ''PURGE'' ''/y'') = Some 404
   \<and> map_sum id c_matched (serve ex_get_post (request ''PURGE'' ''/y'')) = Inr (Some [])
   \<and> first_seen (matched_methods (fst ex_get_post) []) = []
   \<and> map_sum id c_status (serve ex_get_post (request ''PURGE'' ''/y'')) = Inr (Some 501)
   \<and> map_sum id c_headers (serve ex_get_post (request ''PURGE'' ''/y''))
       = Inr [''Allow'' \<mapsto> '''']"
  by (simp add: serve_def ex_get_post_purge_dispatch)
    (simp add: ex_get_post_eq request_def Router_allowedMethods_def after_next_def allowed_of_def
      obj_keys_def set_header_def default_methods_def no_am_options_def matched_methods_def)

theorem methods_guard_decision_table_witness:
  "serve ex_get_post (request ''PUT'' ''/x'')
     = Inr ((request ''PUT'' ''/x'')
              \<lparr>c_matched := Some [0, 1], c_router := Some (snd ex_get_post), c_status := Some 405,
                c_headers := [''Allow'' \<mapsto> ''HEAD, GET, POST'']\<rparr>)"
proof -
  let ?s = "fst ex_get_post" and ?r = "snd ex_get_post"
  let ?c = "(request ''PUT'' ''/x'')\<lparr>c_matched := Some [0, 1], c_router := Some ?r\<rparr>"
  have wf: "\<forall>a\<in>set [0, 1]. list_all method_name (l_methods (layers ?s ! a))"
    by (simp add: ex_get_post_eq method_name_def)
  have mm: "matched_methods ?s [0, Suc 0] = [''HEAD'', ''GET'', ''POST'']"
    by (simp add: ex_get_post_eq matched_methods_def)
  have r: "r_methods ?r = default_methods" by (simp add: ex_get_post_eq)
  have "Router_allowedMethods no_am_options ?r ?s ?c Inr
      = Inr (?c\<lparr>c_status := Some 405, c_headers := [''Allow'' \<mapsto> ''HEAD, GET, POST'']\<rparr>)"
    using methods_guard_decision_table[where ?next = Inr and c = ?c and c' = ?c and ms = "[0, 1]"
        and s = ?s and r = ?r and options = no_am_options and n = 0] wf
    by (simp add: request_def r mm default_methods_def method_name_def no_am_options_def Let_def)
  then show ?thesis by (simp add: serve_def ex_get_post_put_dispatch)
qed

subsection \<open>Parameter validators\<close>

lemma place_split:
  "place names x mw stack =
     (if dropWhile (\<lambda>f. is_validator f \<and> param_index names f \<le> x) stack = [] then stack
      else takeWhile (\<lambda>f. is_validator f \<and> param_index names f \<le> x) stack
           @ mw # dropWhile (\<lambda>f. is_validator f \<and> param_index names f \<le> x) stack)"
  by (induction stack) (auto simp: is_validator_def)

lemma param_splice_absent:
  "indexOf names param = - 1 \<Longrightarrow> param_splice names param fn stack = stack"
  by (simp add: param_splice_def)

lemma Layer_param_absent:
  "indexOf (l_paramNames (layers s ! a)) param = - 1 \<Longrightarrow> Layer_param s a param fn = s"
  by (simp add: Layer_param_def param_splice_absent)

text \<open>
  On one stack array the insertion keeps the order. Let the stack be a run of
  validators followed by middleware that starts with a function that is no validator.
  The wrapper goes after the validators whose parameter is at position \<open>x\<close> or before
  and in front of the others, the middleware after the validators stays as it is, and a
  run sorted by position stays sorted.
\<close>

lemma place_position:
  assumes "dropWhile is_validator stack \<noteq> []"
  shows "place names x mw stack =
           takeWhile (\<lambda>f. param_index names f \<le> x) (takeWhile is_validator stack)
           @ mw # dropWhile (\<lambda>f. param_index names f \<le> x) (takeWhile is_validator stack)
           @ dropWhile is_validator stack"
  using assms by (induction stack) (auto simp: is_validator_def)

lemma sorted_insert_at:
  "sorted ys \<Longrightarrow> sorted (takeWhile (\<lambda>v. v \<le> x) ys @ (x :: int) # dropWhile (\<lambda>v. v \<le> x) ys)"
proof (induction ys)
  case Nil
  then show ?case by simp
next
  case (Cons y ys)
  show ?case
  proof (cases "y \<le> x")
    case True
    have "\<forall>z\<in>set (takeWhile (\<lambda>v. v \<le> x) ys @ x # dropWhile (\<lambda>v. v \<le> x) ys). y \<le> z"
      using Cons.prems True by (auto dest: set_takeWhileD set_dropWhileD)
    then show ?thesis using Cons True by simp
  next
    case False
    then show ?thesis using Cons.prems by auto
  qed
qed

lemma takeWhile_stop:
  "\<forall>x\<in>set xs. P x \<Longrightarrow> ys \<noteq> [] \<Longrightarrow> \<not> P (hd ys) \<Longrightarrow> takeWhile P (xs @ ys) = xs"
  by (induction xs) (auto simp: takeWhile_eq_Nil_iff neq_Nil_conv)

lemma dropWhile_stop:
  "\<forall>x\<in>set xs. P x \<Longrightarrow> ys \<noteq> [] \<Longrightarrow> \<not> P (hd ys) \<Longrightarrow> dropWhile P (xs @ ys) = ys"
  by (induction xs) (auto simp: neq_Nil_conv)

lemma place_sorted:
  assumes "sorted (map (param_index names) (takeWhile is_validator stack))"
    and "dropWhile is_validator stack \<noteq> []"
    and "is_validator mw" and "param_index names mw = x"
  shows "takeWhile is_validator (place names x mw stack) =
           takeWhile (\<lambda>f. param_index names f \<le> x) (takeWhile is_validator stack)
           @ mw # dropWhile (\<lambda>f. param_index names f \<le> x) (takeWhile is_validator stack)"
    and "dropWhile is_validator (place names x mw stack) = dropWhile is_validator stack"
    and "sorted (map (param_index names) (takeWhile is_validator (place names x mw stack)))"
proof -
  let ?vs = "takeWhile is_validator stack" and ?own = "dropWhile is_validator stack"
  let ?ins = "takeWhile (\<lambda>f. param_index names f \<le> x) ?vs
           @ mw # dropWhile (\<lambda>f. param_index names f \<le> x) ?vs"
  have pos: "place names x mw stack = ?ins @ ?own"
    using place_position[OF assms(2)] by simp
  have all: "\<forall>f\<in>set ?ins. is_validator f"
    using assms(3) by (auto dest!: set_takeWhileD set_dropWhileD)
  have own: "\<not> is_validator (hd ?own)"
    using assms(2) hd_dropWhile by blast
  show t: "takeWhile is_validator (place names x mw stack) = ?ins"
    unfolding pos by (rule takeWhile_stop[OF all assms(2) own])
  show "dropWhile is_validator (place names x mw stack) = ?own"
    unfolding pos by (rule dropWhile_stop[OF all assms(2) own])
  have "map (param_index names) ?ins =
      takeWhile (\<lambda>v. v \<le> x) (map (param_index names) ?vs)
      @ x # dropWhile (\<lambda>v. v \<le> x) (map (param_index names) ?vs)"
    using assms(4) by (simp add: takeWhile_map dropWhile_map comp_def)
  then show "sorted (map (param_index names) (takeWhile is_validator (place names x mw stack)))"
    unfolding t using sorted_insert_at[OF assms(1), of x] by simp
qed

lemma ex_two_paths_eq:
  "ex_two_paths =
     (\<lparr>layers = [\<lparr>l_opts = no_layer_opts, l_name = None, l_methods = [''HEAD'', ''GET''],
                   l_paramNames = [''x''], l_stack = 0, l_path = ''/a/:x'',
                   l_regexp = segment_exec no_layer_opts [Lit ''a'', Param ''x'']\<rparr>,
                 \<lparr>l_opts = no_layer_opts, l_name = None, l_methods = [''HEAD'', ''GET''],
                   l_paramNames = [], l_stack = 0, l_path = ''/b'',
                   l_regexp = segment_exec no_layer_opts [Lit ''b'']\<rparr>],
       arrays = [[Fn 1 None]], objects = [[]]\<rparr>,
      \<lparr>r_opts = no_router_opts, r_methods = default_methods, r_params = 0, r_stack = [0, 1]\<rparr>)"
  by (simp add: ex_two_paths_def registry_defs truthy_str_def layer_methods_def toUpperCase_def
      upper_char_def tokens_of_def)

lemma ex_two_paths_param:
  "Router_param (fst ex_two_paths) (snd ex_two_paths) ''x'' 7 =
     (fst ex_two_paths)\<lparr>arrays := [[ParamFn ''x'' 7, Fn 1 None]], objects := [[(''x'', 7)]]\<rparr>"
  by (simp add: ex_two_paths_eq Router_param_def Layer_param_def param_splice_def obj_set_def
      truthy_str_def Let_def)

text \<open>
  C10. The registration \<open>router.get(['/a/:x', '/b'], h)\<close> followed by \<open>router.param('x', v)\<close>:
  the layer of \<open>/b\<close> declares no parameter, its stack was \<open>[h]\<close> and is \<open>[wrapper, h]\<close>
  afterwards, since both layers hold the one array the verb function made; a request
  for \<open>/b\<close> runs the validator, with an undefined value.
\<close>

theorem param_reaches_layer_without_parameter:
  "l_path (layers (fst ex_two_paths) ! 1) = ''/b''
   \<and> l_paramNames (layers (fst ex_two_paths) ! 1) = []
   \<and> arrays (fst ex_two_paths) ! l_stack (layers (fst ex_two_paths) ! 1) = [Fn 1 None]
   \<and> layers (Router_param (fst ex_two_paths) (snd ex_two_paths) ''x'' 7) = layers (fst ex_two_paths)
   \<and> arrays (Router_param (fst ex_two_paths) (snd ex_two_paths) ''x'' 7)
        ! l_stack (layers (fst ex_two_paths) ! 1) = [ParamFn ''x'' 7, Fn 1 None]
   \<and> map_sum id c_state
         (dispatch trace_world (Router_param (fst ex_two_paths) (snd ex_two_paths) ''x'' 7)
            (snd ex_two_paths) (request ''GET'' ''/b'') Inr)
       = Inr [Validated 7 Undefined, Called (Fn 1 None)]"
  by (simp add: ex_two_paths_param) (simp add: ex_two_paths_eq serving_defs)

lemma decode_digits: "decodeURIComponent ''1'' = Some ''1''" "decodeURIComponent ''2'' = Some ''2''"
  by code_simp+

lemma ex_two_orders_eq:
  "ex_two_orders =
     (\<lparr>layers = [\<lparr>l_opts = no_layer_opts, l_name = None, l_methods = [''HEAD'', ''GET''],
                   l_paramNames = [''x'', ''y''], l_stack = 0, l_path = ''/a/:x/:y'',
                   l_regexp = segment_exec no_layer_opts [Lit ''a'', Param ''x'', Param ''y'']\<rparr>,
                 \<lparr>l_opts = no_layer_opts, l_name = None, l_methods = [''HEAD'', ''GET''],
                   l_paramNames = [''y'', ''x''], l_stack = 0, l_path = ''/b/:y/:x'',
                   l_regexp = segment_exec no_layer_opts [Lit ''b'', Param ''y'', Param ''x'']\<rparr>],
       arrays = [[Fn 1 None]], objects = [[]]\<rparr>,
      \<lparr>r_opts = no_router_opts, r_methods = default_methods, r_params = 0, r_stack = [0, 1]\<rparr>)"
  by (simp add: ex_two_orders_def registry_defs truthy_str_def layer_methods_def toUpperCase_def
      upper_char_def tokens_of_def)

lemma ex_two_orders_params:
  "Router_param (Router_param (fst ex_two_orders) (snd ex_two_orders) ''x'' 7) (snd ex_two_orders) ''y'' 8 =
     (fst ex_two_orders)\<lparr>arrays := [[ParamFn ''y'' 8, ParamFn ''x'' 7, ParamFn ''x'' 7, ParamFn ''y'' 8,
                                       Fn 1 None]],
                           objects := [[(''x'', 7), (''y'', 8)]]\<rparr>"
  by (simp add: ex_two_orders_eq Router_param_def Layer_param_def param_splice_def obj_set_def
      truthy_str_def param_index_def Let_def)

text \<open>
  C4. The registration \<open>router.get(['/a/:x/:y', '/b/:y/:x'], h)\<close> followed by
  \<open>router.param('x', vx)\<close> and \<open>router.param('y', vy)\<close>: the two layers hold one stack
  array, each insertion is placed by the parameter order of the layer it goes through,
  and the layer of \<open>/a/:x/:y\<close> ends with the validator of \<open>y\<close> in front of the validator
  of \<open>x\<close>; a request for \<open>/a/1/2\<close> runs them in that order.
\<close>

theorem validators_out_of_order_on_shared_stack:
  "l_path (layers (fst ex_two_orders) ! 0) = ''/a/:x/:y''
   \<and> l_paramNames (layers (fst ex_two_orders) ! 0) = [''x'', ''y'']
   \<and> arrays (Router_param (Router_param (fst ex_two_orders) (snd ex_two_orders) ''x'' 7)
               (snd ex_two_orders) ''y'' 8) ! l_stack (layers (fst ex_two_orders) ! 0)
        = [ParamFn ''y'' 8, ParamFn ''x'' 7, ParamFn ''x'' 7, ParamFn ''y'' 8, Fn 1 None]
   \<and> map_sum id c_state
         (dispatch trace_world
            (Router_param (Router_param (fst ex_two_orders) (snd ex_two_orders) ''x'' 7)
               (snd ex_two_orders) ''y'' 8)
            (snd ex_two_orders) (request ''GET'' ''/a/1/2'') Inr)
       = Inr [Validated 8 (Own ''2''), Validated 7 (Own ''1''),
              Validated 7 (Own ''1''), Validated 8 (Own ''2''), Called (Fn 1 None)]"
  by (simp add: ex_two_orders_params) (simp add: ex_two_orders_eq serving_defs decode_digits)

subsection \<open>Dispatch\<close>


lemma typeof_val_not_function: "typeof_val v \<noteq> ''function''"
  by (cases v) simp_all























text \<open>
  Handlers that read the parameters, write the body and call \<open>next\<close> continue
  and keep the route.
\<close>

lemma reply_world_continues:
  "typeof_mw m = ''function'' \<Longrightarrow> continues reply_world reply_act m"
  by (cases m)
    (auto simp: continues_def run_mw_def reply_world_def reply_act_def typeof_val_not_function)

lemma reply_act_keeps: "keeps_route reply_act m"
  by (cases m) (simp_all add: keeps_route_def reply_act_def)


subsection \<open>Mounting\<close>

lemma Layer_setPrefix_eq:
  "Layer_setPrefix ptr s a pre = s\<lparr>layers := (layers s)[a := set_prefix ptr pre (layers s ! a)]\<rparr>"
  by (simp add: Layer_setPrefix_def set_prefix_def Let_def split: prod.splits)

lemma set_prefix_fields [simp]:
  "l_stack (set_prefix ptr pre l) = l_stack l"
  "l_methods (set_prefix ptr pre l) = l_methods l"
  "l_name (set_prefix ptr pre l) = l_name l"
  "l_opts (set_prefix ptr pre l) = l_opts l"
  by (simp_all add: set_prefix_def Let_def split: prod.splits)

lemma opt_prefix_fields [simp]:
  "l_stack (opt_prefix ptr pre l) = l_stack l"
  "l_methods (opt_prefix ptr pre l) = l_methods l"
  "l_name (opt_prefix ptr pre l) = l_name l"
  "l_opts (opt_prefix ptr pre l) = l_opts l"
  by (simp_all add: opt_prefix_def split: option.splits)

lemma clone_layer_eq:
  "clone_layer ptr path pre a s
     = s\<lparr>layers := layers s @ [opt_prefix ptr pre (opt_prefix ptr path (layers s ! a))]\<rparr>"
  by (auto simp: clone_layer_def Layer_setPrefix_eq opt_prefix_def Let_def split: option.splits)

lemma fold_clone_layer:
  assumes "\<forall>a\<in>set as. a < length (layers s)"
  shows "fold (clone_layer ptr path pre) as s
       = s\<lparr>layers := layers s
            @ map (\<lambda>a. opt_prefix ptr pre (opt_prefix ptr path (layers s ! a))) as\<rparr>"
  using assms
proof (induction as arbitrary: s)
  case Nil
  then show ?case by simp
next
  case (Cons a as)
  let ?s1 = "clone_layer ptr path pre a s"
  have l1: "layers ?s1 = layers s @ [opt_prefix ptr pre (opt_prefix ptr path (layers s ! a))]"
    by (simp add: clone_layer_eq)
  have wf1: "\<forall>b\<in>set as. b < length (layers ?s1)"
    using Cons.prems l1 by auto
  have same: "map (\<lambda>b. opt_prefix ptr pre (opt_prefix ptr path (layers ?s1 ! b))) as
      = map (\<lambda>b. opt_prefix ptr pre (opt_prefix ptr path (layers s ! b))) as"
    using Cons.prems l1 by (auto simp: nth_append)
  show ?case
    unfolding fold_Cons comp_def Cons.IH[OF wf1] same
    by (simp add: clone_layer_eq)
qed

lemma Router_param_layers [simp]: "layers (Router_param s r k f) = layers s"
proof -
  have "layers (fold (\<lambda>a st. Layer_param st a k f) as s') = layers s'" for as s'
    by (induction as arbitrary: s') simp_all
  then show ?thesis by (simp add: Router_param_def Let_def)
qed

lemma mount_params_layers [simp]: "layers (mount_params s r cr) = layers s"
proof -
  have "layers (fold (\<lambda>key st. case map_of (objects st ! r_params r) key of
          Some fn \<Rightarrow> Router_param st cr key fn | None \<Rightarrow> st) ks s') = layers s'" for ks s'
    by (induction ks arbitrary: s') (simp_all split: option.splits)
  then show ?thesis by (simp add: mount_params_def)
qed

lemma mount_params_none: "objects s ! r_params r = [] \<Longrightarrow> mount_params s r cr = s"
  by (simp add: mount_params_def obj_keys_def)

lemma Router_prefix_frame:
  "a \<notin> set (r_stack r) \<Longrightarrow> layers (fst (Router_prefix ptr s r p)) ! a = layers s ! a"
proof -
  have "a \<notin> set as \<Longrightarrow> layers (fold (\<lambda>b st. Layer_setPrefix ptr st b q) as s') ! a = layers s' ! a"
    for as s' q
    by (induction as arbitrary: s') (simp_all add: setPrefix_other)
  then show "a \<notin> set (r_stack r) \<Longrightarrow> layers (fst (Router_prefix ptr s r p)) ! a = layers s ! a"
    by (simp add: Router_prefix_def Let_def)
qed

lemma mount_eq:
  assumes "\<forall>a\<in>set (r_stack nested). a < length (layers s)"
  shows "layers (fst (mount ptr s r path nested))
           = layers s @ map (\<lambda>a. opt_prefix ptr (ro_prefix (r_opts r)) (opt_prefix ptr path (layers s ! a)))
                          (r_stack nested)"
    and "r_stack (snd (mount ptr s r path nested))
           = r_stack r @ [length (layers s) ..< length (layers s) + length (r_stack nested)]"
    and "objects s ! r_params r = [] \<Longrightarrow>
           arrays (fst (mount ptr s r path nested)) = arrays s
           \<and> objects (fst (mount ptr s r path nested)) = objects s"
  by (simp_all add: mount_def Let_def fold_clone_layer[OF assms] mount_params_none)

lemma use_one_dispatch:
  "use_one ptr s r path (AMw (Dispatch nested)) = Inr (mount ptr s r path nested)"
  by (simp add: use_one_def)

text \<open>
  What the mount does to the layer objects. Every layer of the nested router is copied
  into a new \<open>Layer\<close> object, prefixed by the mount path and then by the router's
  prefix with a newly compiled pattern, and the copies are appended to the router's
  stack. Every \<open>Layer\<close> object that existed keeps all its fields, also under a later
  \<open>prefix\<close> or \<open>param\<close> of the mounting router, and a later \<open>prefix\<close> of the nested
  router leaves the copies as they are. The copy is made with \<open>Object.assign\<close>, which
  copies the reference to the stack array and not the array: \<open>l_stack\<close> of a copy is
  the address its source holds.
\<close>

lemma mount_layer_objects:
  assumes "use_one ptr s r path (AMw (Dispatch nested)) = Inr (s1, r1)"
    and "\<forall>a\<in>set (r_stack nested). a < length (layers s)"
    and "set (r_stack r) \<inter> set (r_stack nested) = {}"
  shows "r_stack r1 = r_stack r @ [length (layers s) ..< length (layers s) + length (r_stack nested)]
       \<and> length (layers s1) = length (layers s) + length (r_stack nested)
       \<and> (\<forall>a < length (layers s). layers s1 ! a = layers s ! a)
       \<and> (\<forall>i < length (r_stack nested).
             layers s1 ! (length (layers s) + i)
               = opt_prefix ptr (ro_prefix (r_opts r))
                   (opt_prefix ptr path (layers s ! (r_stack nested ! i)))
             \<and> l_stack (layers s1 ! (length (layers s) + i))
                 = l_stack (layers s ! (r_stack nested ! i)))
       \<and> (\<forall>a\<in>set (r_stack nested). layers (fst (Router_prefix ptr s1 r1 p)) ! a = layers s ! a)
       \<and> layers (Router_param s1 r1 key fn) = layers s1
       \<and> (\<forall>i < length (r_stack nested).
             layers (fst (Router_prefix ptr s1 nested p)) ! (length (layers s) + i)
               = layers s1 ! (length (layers s) + i))"
proof -
  let ?n = "length (layers s)" and ?k = "length (r_stack nested)"
  have s1: "s1 = fst (mount ptr s r path nested)" and r1: "r1 = snd (mount ptr s r path nested)"
    using assms(1) by (simp_all add: use_one_dispatch)
  note m = mount_eq[OF assms(2), where ptr = ptr and r = r and path = path]
  have ls: "layers s1 = layers s @ map (\<lambda>a. opt_prefix ptr (ro_prefix (r_opts r))
                (opt_prefix ptr path (layers s ! a))) (r_stack nested)"
    unfolding s1 by (rule m(1))
  have stack: "r_stack r1 = r_stack r @ [?n ..< ?n + ?k]"
    unfolding r1 by (rule m(2))
  have len: "length (layers s1) = ?n + ?k" by (simp add: ls)
  have old: "\<forall>a < ?n. layers s1 ! a = layers s ! a" by (simp add: ls nth_append)
  have new: "\<forall>i < ?k. layers s1 ! (?n + i)
               = opt_prefix ptr (ro_prefix (r_opts r)) (opt_prefix ptr path (layers s ! (r_stack nested ! i)))
             \<and> l_stack (layers s1 ! (?n + i)) = l_stack (layers s ! (r_stack nested ! i))"
    by (simp add: ls nth_append)
  have p1: "\<forall>a\<in>set (r_stack nested). layers (fst (Router_prefix ptr s1 r1 p)) ! a = layers s ! a"
  proof
    fix a assume a: "a \<in> set (r_stack nested)"
    then have lt: "a < ?n" using assms(2) by blast
    have "a \<notin> set (r_stack r1)" using a lt assms(3) stack by auto
    then have "layers (fst (Router_prefix ptr s1 r1 p)) ! a = layers s1 ! a"
      by (rule Router_prefix_frame)
    then show "layers (fst (Router_prefix ptr s1 r1 p)) ! a = layers s ! a"
      using old lt by simp
  qed
  have p2: "\<forall>i < ?k. layers (fst (Router_prefix ptr s1 nested p)) ! (?n + i) = layers s1 ! (?n + i)"
  proof (intro allI impI)
    fix i assume "i < ?k"
    have "?n + i \<notin> set (r_stack nested)" using assms(2) by auto
    then show "layers (fst (Router_prefix ptr s1 nested p)) ! (?n + i) = layers s1 ! (?n + i)"
      by (rule Router_prefix_frame)
  qed
  show ?thesis using stack len old new p1 p2 by simp
qed

lemma ex_nested_eq:
  "ex_nested =
     (\<lparr>layers = [\<lparr>l_opts = no_layer_opts, l_name = None, l_methods = [''HEAD'', ''GET''],
                   l_paramNames = [''id''], l_stack = 0, l_path = ''/:id'',
                   l_regexp = segment_exec no_layer_opts [Param ''id'']\<rparr>],
       arrays = [[Fn 1 None]], objects = [[]]\<rparr>,
      \<lparr>r_opts = no_router_opts, r_methods = default_methods, r_params = 0, r_stack = [0]\<rparr>)"
  by (simp add: ex_nested_def registry_defs truthy_str_def layer_methods_def toUpperCase_def
      upper_char_def tokens_of_def)

lemma ex_parent_eq:
  "ex_parent =
     (\<lparr>layers = [\<lparr>l_opts = no_layer_opts, l_name = None, l_methods = [''HEAD'', ''GET''],
                   l_paramNames = [''id''], l_stack = 0, l_path = ''/:id'',
                   l_regexp = segment_exec no_layer_opts [Param ''id'']\<rparr>,
                 \<lparr>l_opts = no_layer_opts, l_name = None, l_methods = [''HEAD'', ''GET''],
                   l_paramNames = [''id''], l_stack = 0, l_path = ''/p/:id'',
                   l_regexp = segment_exec no_layer_opts [Lit ''p'', Param ''id'']\<rparr>],
       arrays = [[Fn 1 None]], objects = [[], []]\<rparr>,
      \<lparr>r_opts = no_router_opts, r_methods = default_methods, r_params = 1, r_stack = [1]\<rparr>)"
  by (simp add: ex_parent_def ex_nested_eq Router_use_def use_one_def mount_def clone_layer_def
      mount_params_def Router_new_def or_else_def Layer_setPrefix_def obj_keys_def segment_ptr_def
      tokens_of_def no_router_opts_def no_layer_opts_def Let_def)

lemma decode_5: "decodeURIComponent ''5'' = Some ''5''"
  by code_simp

lemma ex_parent_param:
  "Router_param (fst ex_parent) (snd ex_parent) ''id'' 7 =
     (fst ex_parent)\<lparr>arrays := [[ParamFn ''id'' 7, Fn 1 None]], objects := [[], [(''id'', 7)]]\<rparr>"
  by (simp add: ex_parent_eq Router_param_def Layer_param_def param_splice_def obj_set_def
      truthy_str_def Let_def)

lemma obj_keys_id: "obj_keys [(''id'', v)] = [''id'']"
  by (simp add: obj_keys_def is_array_index_def is_digit_def)

lemma ex_parent_start:
  "Router_new (fst ex_nested) no_router_opts
     = ((fst ex_nested)\<lparr>objects := [[], []]\<rparr>,
        \<lparr>r_opts = no_router_opts, r_methods = default_methods, r_params = 1, r_stack = []\<rparr>)"
  by (simp add: ex_nested_eq Router_new_def no_router_opts_def)

lemma ex_parent_validator:
  "Router_param ((fst ex_nested)\<lparr>objects := [[], []]\<rparr>)
       \<lparr>r_opts = no_router_opts, r_methods = default_methods, r_params = 1, r_stack = []\<rparr> ''id'' 7
     = (fst ex_nested)\<lparr>objects := [[], [(''id'', 7)]]\<rparr>"
  by (simp add: ex_nested_eq Router_param_def obj_set_def Let_def)

lemma ex_validated_parent_eq:
  "ex_validated_parent =
     (\<lparr>layers = [\<lparr>l_opts = no_layer_opts, l_name = None, l_methods = [''HEAD'', ''GET''],
                   l_paramNames = [''id''], l_stack = 0, l_path = ''/:id'',
                   l_regexp = segment_exec no_layer_opts [Param ''id'']\<rparr>,
                 \<lparr>l_opts = no_layer_opts, l_name = None, l_methods = [''HEAD'', ''GET''],
                   l_paramNames = [''id''], l_stack = 0, l_path = ''/p/:id'',
                   l_regexp = segment_exec no_layer_opts [Lit ''p'', Param ''id'']\<rparr>],
       arrays = [[ParamFn ''id'' 7, Fn 1 None]], objects = [[(''id'', 7)], [(''id'', 7)]]\<rparr>,
      \<lparr>r_opts = no_router_opts, r_methods = default_methods, r_params = 1, r_stack = [1]\<rparr>)"
  unfolding ex_validated_parent_def ex_parent_start Let_def prod.case ex_parent_validator
  by (simp add: ex_nested_eq Router_use_def use_one_def mount_def
      clone_layer_def mount_params_def Router_param_def Layer_param_def
      param_splice_def obj_set_def truthy_str_def or_else_def Layer_setPrefix_def obj_keys_id
      segment_ptr_def tokens_of_def no_router_opts_def
      no_layer_opts_def Let_def)

text \<open>
  C2. The nested router has the route \<open>get('/:id', h)\<close>, and the stack of its layer is
  \<open>[h]\<close>. A parent mounts it with \<open>use('/p', nested.routes())\<close> and then calls
  \<open>param('id', v)\<close>: the copy in the parent holds the stack array of its source, the
  stack of the nested router's own layer is \<open>[wrapper, h]\<close> afterwards, and a request
  dispatched by the nested router alone runs the parent's validator. A parent that
  calls \<open>param('id', v)\<close> first changes the nested router by the mount itself: the
  wrapper is in the stack of the nested router's layer, and the validator is in the
  nested router's \<open>params\<close> object, which the clone of the router shares.
\<close>

theorem parent_validator_enters_nested_stack:
  "r_stack (snd ex_nested) = [0]
   \<and> arrays (fst ex_nested) ! l_stack (layers (fst ex_nested) ! 0) = [Fn 1 None]
   \<and> arrays (fst ex_parent) ! l_stack (layers (fst ex_parent) ! 0) = [Fn 1 None]
   \<and> arrays (Router_param (fst ex_parent) (snd ex_parent) ''id'' 7)
        ! l_stack (layers (Router_param (fst ex_parent) (snd ex_parent) ''id'' 7) ! 0)
       = [ParamFn ''id'' 7, Fn 1 None]
   \<and> map_sum id c_state
         (dispatch trace_world (Router_param (fst ex_parent) (snd ex_parent) ''id'' 7)
            (snd ex_nested) (request ''GET'' ''/5'') Inr)
       = Inr [Validated 7 (Own ''5''), Called (Fn 1 None)]
   \<and> arrays (fst ex_validated_parent) ! l_stack (layers (fst ex_validated_parent) ! 0)
       = [ParamFn ''id'' 7, Fn 1 None]
   \<and> objects (fst ex_nested) ! r_params (snd ex_nested) = []
   \<and> objects (fst ex_validated_parent) ! r_params (snd ex_nested) = [(''id'', 7)]"
  by (simp add: ex_parent_param ex_validated_parent_eq)
    (simp add: ex_parent_eq ex_nested_eq serving_defs decode_5)

end
